theory Spec2Isabelle
  imports Main
begin

section \<open>Data model\<close>

text \<open>
  The program is the single function \<open>run\<close> of \<open>mokuro/run.py\<close>. Its effects
  (logging, printing, reading one line of input, listing a directory, calling the
  overlay generator) are made explicit: every function of the model returns the events
  it produced, in chronological order, next to its result.

  A \<open>pathlib.Path\<close> is represented by its string form. On a POSIX system two paths are
  equal exactly when their string forms are, which is what \<open>p not in paths\<close> compares.
\<close>

type_synonym path = string

text \<open>
  Python exceptions. \<open>KeyboardInterrupt\<close>, \<open>SystemExit\<close> and \<open>GeneratorExit\<close> derive from
  \<open>BaseException\<close> only; every other constructor stands for a subclass of \<open>Exception\<close>.
\<close>

datatype py_exception =
    OSError string
  | EOFError
  | OtherException string
  | KeyboardInterrupt
  | SystemExit int
  | GeneratorExit

fun isinstance_Exception :: "py_exception \<Rightarrow> bool" where
  "isinstance_Exception KeyboardInterrupt = False"
| "isinstance_Exception (SystemExit c) = False"
| "isinstance_Exception GeneratorExit = False"
| "isinstance_Exception e = True"

datatype 'a result = Returned 'a | Raised py_exception

datatype level = INFO | ERROR

text \<open>The five messages the function logs, with the values interpolated into them.\<close>

datatype message =
    OcrDisabled
  | NoPaths
  | Processing nat nat path
  | ErrorWhile path
  | Summary nat nat

datatype event =
    Log level message "py_exception option"
  | Print string
  | Input string
  | ProcessDir path bool "unit result"

datatype state_value = SInt int | SStr string | SBool bool

record run_args =
  paths :: "string list"
  parent_dir :: "string option"
  pretrained_model_name_or_path :: string
  force_cpu :: bool
  as_one_file :: bool
  disable_confirmation :: bool
  disable_ocr :: bool
  right_to_left :: bool
  double_page_view :: bool
  has_cover :: bool
  ctrl_to_pan :: bool
  display_ocr :: bool
  textbox_borders :: bool
  editable_text :: bool
  eink_mode :: bool
  textbox_click_toggle :: bool

record overlay_generator =
  ovg_default_state :: "(string \<times> state_value) list"
  ovg_pretrained_model_name_or_path :: string
  ovg_force_cpu :: bool
  ovg_disable_ocr :: bool

text \<open>
  What \<open>run\<close> reads from outside itself:
  \<^item> \<open>absolute s\<close> is \<open>Path(s).expanduser().absolute()\<close> (it depends on the home and the
    current directory);
  \<^item> \<open>iterdir d\<close> is the listing of \<open>d\<close>, or the message of the \<open>OSError\<close> raised when
    \<open>d\<close> does not exist or cannot be listed;
  \<^item> \<open>is_dir\<close> is \<open>Path.is_dir\<close>;
  \<^item> \<open>input_line\<close> is the line \<open>input\<close> returns, \<open>None\<close> at end of file;
  \<^item> \<open>process_dir g p b w\<close> is the call \<open>g.process_dir(p, as_one_file=b)\<close> in the
    world \<open>w\<close> (the file system and the state of the generator): it returns or raises,
    and leaves a new world.
\<close>

record 'w env =
  absolute :: "string \<Rightarrow> path"
  iterdir :: "path \<Rightarrow> string + path list"
  is_dir :: "path \<Rightarrow> bool"
  input_line :: "string option"
  process_dir :: "overlay_generator \<Rightarrow> path \<Rightarrow> bool \<Rightarrow> 'w \<Rightarrow> unit result \<times> 'w"

section \<open>Strings and paths\<close>

definition newline :: char where
  "newline = CHR 0x0A"

definition digit_char :: "nat \<Rightarrow> char" where
  "digit_char d = char_of (48 + d)"

fun show_nat :: "nat \<Rightarrow> string" where
  "show_nat n = (if n < 10 then [digit_char n] else show_nat (n div 10) @ [digit_char (n mod 10)])"

declare show_nat.simps [simp del]

text \<open>The text of each message, as the f-strings of the source build it.\<close>

fun render :: "message \<Rightarrow> string" where
  "render OcrDisabled = ''Running with OCR disabled''"
| "render NoPaths = ''Found no paths to process. Did you set the paths correctly?''"
| "render (Processing i n p) = ''Processing '' @ show_nat i @ ''/'' @ show_nat n @ '': '' @ p"
| "render (ErrorWhile p) = ''Error while processing '' @ p"
| "render (Summary k n) = ''Processed successfully: '' @ show_nat k @ ''/'' @ show_nat n"

text \<open>\<open>str.lower\<close> on ASCII letters; the other characters are left as they are, which
  is all the comparison with \<open>'y'\<close> and \<open>'yes'\<close> can see.\<close>

definition lower_char :: "char \<Rightarrow> char" where
  "lower_char c = (let n = (of_char c :: nat) in if 65 \<le> n \<and> n \<le> 90 then char_of (n + 32) else c)"

definition lower :: "string \<Rightarrow> string" where
  "lower s = map lower_char s"

text \<open>\<open>PurePath.name\<close>: the last component of the path.\<close>

definition name :: "path \<Rightarrow> string" where
  "name p = rev (takeWhile (\<lambda>c. c \<noteq> CHR ''/'') (rev p))"

text \<open>\<open>str.rfind\<close> for one character: the last index of \<open>c\<close>, or \<open>-1\<close>.\<close>

definition rfind :: "string \<Rightarrow> char \<Rightarrow> int" where
  "rfind s c = (if c \<in> set s
     then int (length s) - 1 - int (length (takeWhile (\<lambda>x. x \<noteq> c) (rev s)))
     else - 1)"

text \<open>
  \<open>PurePath.stem\<close>: the name without its last suffix.
  \<^verbatim>\<open>
  name = self.name
  i = name.rfind('.')
  if 0 < i < len(name) - 1: return name[:i]
  else: return name
  \<close>
\<close>

definition stem :: "path \<Rightarrow> string" where
  "stem p = (let n = name p; i = rfind n (CHR ''.'')
             in if 0 < i \<and> i < int (length n) - 1 then take (nat i) n else n)"

section \<open>Natural sorting\<close>

text \<open>
  Modelled from the spec: \<open>natsorted\<close> of the \<open>natsort\<close> package, which is not part of the
  repository. The spec asks for the natural sort order on the string form of each path:
  lexicographic, with numeric runs compared by numeric value. The key of a string is its
  sequence of maximal runs of digits (as numbers) and of other characters (as strings),
  with an empty string in front when the string starts with a digit, so that strings and
  numbers alternate; keys are compared as Python compares tuples; the sort is stable.
\<close>

datatype chunk = Str string | Num nat

definition is_digit :: "char \<Rightarrow> bool" where
  "is_digit c = (let n = (of_char c :: nat) in 48 \<le> n \<and> n \<le> 57)"

fun cons_run :: "char \<Rightarrow> (bool \<times> string) list \<Rightarrow> (bool \<times> string) list" where
  "cons_run c [] = [(is_digit c, [c])]"
| "cons_run c ((d, r) # rs) =
     (if is_digit c = d then (d, c # r) # rs else (is_digit c, [c]) # (d, r) # rs)"

definition runs :: "string \<Rightarrow> (bool \<times> string) list" where
  "runs s = foldr cons_run s []"

definition decimal :: "string \<Rightarrow> nat" where
  "decimal ds = foldl (\<lambda>n c. 10 * n + (of_char c - 48)) 0 ds"

fun chunk_of :: "bool \<times> string \<Rightarrow> chunk" where
  "chunk_of (d, r) = (if d then Num (decimal r) else Str r)"

fun sep_inserter :: "chunk list \<Rightarrow> chunk list" where
  "sep_inserter (Num n # cs) = Str [] # Num n # cs"
| "sep_inserter cs = cs"

text \<open>Modelled from the spec: the key \<open>natsorted\<close> compares, for the string form of a
  path (\<open>natsort\<close> is not part of the repository): \<open>vol10\<close> has the key \<open>('vol', 10)\<close>.\<close>

definition natsort_key :: "string \<Rightarrow> chunk list" where
  "natsort_key s = sep_inserter (map chunk_of (runs s))"

fun str_less :: "string \<Rightarrow> string \<Rightarrow> bool" where
  "str_less [] [] = False"
| "str_less [] (b # bs) = True"
| "str_less (a # as) [] = False"
| "str_less (a # as) (b # bs) =
     ((of_char a :: nat) < of_char b \<or> (a = b \<and> str_less as bs))"

text \<open>A string against a number does not occur, since the chunks of a key alternate.\<close>

fun chunk_less :: "chunk \<Rightarrow> chunk \<Rightarrow> bool" where
  "chunk_less (Str a) (Str b) = str_less a b"
| "chunk_less (Num m) (Num n) = (m < n)"
| "chunk_less (Str a) (Num n) = True"
| "chunk_less (Num m) (Str b) = False"

fun key_less :: "chunk list \<Rightarrow> chunk list \<Rightarrow> bool" where
  "key_less [] [] = False"
| "key_less [] (y # ys) = True"
| "key_less (x # xs) [] = False"
| "key_less (x # xs) (y # ys) = (chunk_less x y \<or> (x = y \<and> key_less xs ys))"

fun nat_insort :: "path \<Rightarrow> path list \<Rightarrow> path list" where
  "nat_insort x [] = [x]"
| "nat_insort x (y # ys) =
     (if key_less (natsort_key y) (natsort_key x) then y # nat_insort x ys else x # y # ys)"

text \<open>Modelled from the spec: the natural order on the string forms of two paths, \<open>x\<close> not
  after \<open>y\<close>: the key of \<open>y\<close> is not below the key of \<open>x\<close>.\<close>

definition natural_le :: "path \<Rightarrow> path \<Rightarrow> bool" where
  "natural_le x y = (\<not> key_less (natsort_key y) (natsort_key x))"

text \<open>Modelled from the spec: \<open>natsorted\<close> (\<open>natsort\<close> is not part of the repository), a
  stable sort by \<open>natsort_key\<close>: an element goes in front of the first one whose key is not
  below its own.\<close>

definition natsorted :: "path list \<Rightarrow> path list" where
  "natsorted ps = foldr nat_insort ps []"

section \<open>The function \<open>run\<close>\<close>

text \<open>The dictionary \<open>default_state\<close> handed to the overlay generator.\<close>

definition default_state :: "run_args \<Rightarrow> (string \<times> state_value) list" where
  "default_state a =
     [(''page_idx'', SInt 0),
      (''page2_idx'', SInt (- 1)),
      (''defaultZoomMode'', SStr ''fit to screen''),
      (''r2l'', SBool (right_to_left a)),
      (''doublePageView'', SBool (double_page_view a)),
      (''hasCover'', SBool (has_cover a)),
      (''ctrlToPan'', SBool (ctrl_to_pan a)),
      (''displayOCR'', SBool (display_ocr a)),
      (''textBoxBorders'', SBool (textbox_borders a)),
      (''editableText'', SBool (editable_text a)),
      (''fontSize'', SStr ''auto''),
      (''eInkMode'', SBool (eink_mode a)),
      (''toggleOCRTextBoxes'', SBool (textbox_click_toggle a)),
      (''backgroundColor'', SStr ''#C4C3D0'')]"

definition OverlayGenerator :: "run_args \<Rightarrow> overlay_generator" where
  "OverlayGenerator a =
     \<lparr>ovg_default_state = default_state a,
      ovg_pretrained_model_name_or_path = pretrained_model_name_or_path a,
      ovg_force_cpu = force_cpu a,
      ovg_disable_ocr = disable_ocr a\<rparr>"

text \<open>
  The loop over the children of the parent directory:
  \<^verbatim>\<open>
  for p in Path(parent_dir).expanduser().absolute().iterdir():
      if p.is_dir() and p.stem != '_ocr' and p not in paths:
          paths.append(p)
  \<close>
\<close>

fun scan :: "'w env \<Rightarrow> path list \<Rightarrow> path list \<Rightarrow> path list" where
  "scan env [] ps = ps"
| "scan env (p # cs) ps =
     scan env cs (if is_dir env p \<and> stem p \<noteq> ''_ocr'' \<and> p \<notin> set ps then ps @ [p] else ps)"

text \<open>The list \<open>paths\<close> as it stands before it is sorted, or the error of \<open>iterdir\<close>.\<close>

definition resolve :: "'w env \<Rightarrow> run_args \<Rightarrow> py_exception + path list" where
  "resolve env a =
     (let ps = map (absolute env) (paths a)
      in case parent_dir a of
           None \<Rightarrow> Inr ps
         | Some d \<Rightarrow>
             (case iterdir env (absolute env d) of
                Inl msg \<Rightarrow> Inl (OSError msg)
              | Inr cs \<Rightarrow> Inr (scan env cs ps)))"

definition paths_header :: string where
  "paths_header = newline # ''Paths to process:'' @ [newline]"

definition confirm_prompt :: string where
  "confirm_prompt =
     newline # ''Each of the paths above will be treated as one volume. Continue? [yes/no]''
       @ [newline]"

text \<open>
  The confirmation: \<open>Returned True\<close> when the run goes on, \<open>Returned False\<close> when it
  returns at once, \<open>Raised EOFError\<close> when there is no line to read.
  \<^verbatim>\<open>
  if not disable_confirmation:
      inp = input(...)
      if inp.lower() not in ('y', 'yes'):
          return
  \<close>
\<close>

definition confirm :: "'w env \<Rightarrow> run_args \<Rightarrow> bool result \<times> event list" where
  "confirm env a =
     (if \<not> disable_confirmation a then
        (case input_line env of
           None \<Rightarrow> (Raised EOFError, [Input confirm_prompt])
         | Some inp \<Rightarrow> (Returned (lower inp \<in> set [''y'', ''yes'']), [Input confirm_prompt]))
      else (Returned True, []))"

text \<open>
  The loop over the volumes, from index \<open>i\<close> with \<open>k\<close> volumes successful so far. It
  returns the final value of \<open>num_sucessful\<close>, or raises what \<open>except Exception\<close> lets through.
  \<^verbatim>\<open>
  for i, path in enumerate(paths):
      logger.info(f'Processing {i + 1}/{len(paths)}: {path}')
      try:
          ovg.process_dir(path, as_one_file=as_one_file)
      except Exception:
          logger.exception(f'Error while processing {path}')
      else:
          num_sucessful += 1
  \<close>
\<close>

fun batch ::
  "'w env \<Rightarrow> overlay_generator \<Rightarrow> bool \<Rightarrow> nat \<Rightarrow> nat \<Rightarrow> path list \<Rightarrow> nat \<Rightarrow> 'w
     \<Rightarrow> nat result \<times> event list \<times> 'w" where
  "batch env ovg b n i [] k w = (Returned k, [], w)"
| "batch env ovg b n i (p # ps) k w =
     (case process_dir env ovg p b w of
        (Returned u, w1) \<Rightarrow>
          (case batch env ovg b n (i + 1) ps (k + 1) w1 of
             (r, evs, w2) \<Rightarrow>
               (r, Log INFO (Processing (i + 1) n p) None
                     # ProcessDir p b (Returned ()) # evs, w2))
      | (Raised e, w1) \<Rightarrow>
          if isinstance_Exception e then
            (case batch env ovg b n (i + 1) ps k w1 of
               (r, evs, w2) \<Rightarrow>
                 (r, Log INFO (Processing (i + 1) n p) None
                       # ProcessDir p b (Raised e)
                       # Log ERROR (ErrorWhile p) (Some e) # evs, w2))
          else
            (Raised e, [Log INFO (Processing (i + 1) n p) None,
                        ProcessDir p b (Raised e)], w1))"

definition run :: "'w env \<Rightarrow> run_args \<Rightarrow> 'w \<Rightarrow> unit result \<times> event list \<times> 'w" where
  "run env a w =
     (let evs0 = (if disable_ocr a then [Log INFO OcrDisabled None] else [])
      in case resolve env a of
           Inl e \<Rightarrow> (Raised e, evs0, w)
         | Inr ps0 \<Rightarrow>
             if length ps0 = 0 then (Returned (), evs0 @ [Log ERROR NoPaths None], w)
             else
               let ps = natsorted ps0;
                   evs1 = evs0 @ Print paths_header # map Print ps
               in (case confirm env a of
                     (Raised e, evs2) \<Rightarrow> (Raised e, evs1 @ evs2, w)
                   | (Returned False, evs2) \<Rightarrow> (Returned (), evs1 @ evs2, w)
                   | (Returned True, evs2) \<Rightarrow>
                       (case batch env (OverlayGenerator a) (as_one_file a) (length ps) 0 ps 0 w of
                          (Raised e, evs3, w1) \<Rightarrow> (Raised e, evs1 @ evs2 @ evs3, w1)
                        | (Returned k, evs3, w1) \<Rightarrow>
                            (Returned (),
                             evs1 @ evs2 @ evs3 @ [Log INFO (Summary k (length ps)) None], w1))))"

section \<open>Reading a trace\<close>

text \<open>The volumes on which \<open>process_dir\<close> was called, in the order of the calls.\<close>

fun attempted :: "event list \<Rightarrow> path list" where
  "attempted [] = []"
| "attempted (ProcessDir p b r # es) = p # attempted es"
| "attempted (e # es) = attempted es"

text \<open>The calls of \<open>process_dir\<close> that raised, with what they raised.\<close>

fun failures :: "event list \<Rightarrow> (path \<times> py_exception) list" where
  "failures [] = []"
| "failures (ProcessDir p b (Raised e) # es) = (p, e) # failures es"
| "failures (e # es) = failures es"

text \<open>The entries written by \<open>logger.exception\<close>: the path in the message and the
  exception attached.\<close>

fun logged_errors :: "event list \<Rightarrow> (path \<times> py_exception) list" where
  "logged_errors [] = []"
| "logged_errors (Log ERROR (ErrorWhile p) (Some e) # es) = (p, e) # logged_errors es"
| "logged_errors (e # es) = logged_errors es"

text \<open>The messages logged at the error level.\<close>

fun error_diagnostics :: "event list \<Rightarrow> message list" where
  "error_diagnostics [] = []"
| "error_diagnostics (Log ERROR m x # es) = m # error_diagnostics es"
| "error_diagnostics (e # es) = error_diagnostics es"

text \<open>The progress messages: index, total and path.\<close>

fun progress :: "event list \<Rightarrow> (nat \<times> nat \<times> path) list" where
  "progress [] = []"
| "progress (Log INFO (Processing i n p) x # es) = (i, n, p) # progress es"
| "progress (e # es) = progress es"

text \<open>The final summaries: successful and total.\<close>

fun summaries :: "event list \<Rightarrow> (nat \<times> nat) list" where
  "summaries [] = []"
| "summaries (Log INFO (Summary k n) x # es) = (k, n) # summaries es"
| "summaries (e # es) = summaries es"

text \<open>The prompts shown by \<open>input\<close>.\<close>

fun prompts :: "event list \<Rightarrow> string list" where
  "prompts [] = []"
| "prompts (Input s # es) = s # prompts es"
| "prompts (e # es) = prompts es"

text \<open>The calls of \<open>process_dir\<close> with their outcomes, in the order of the calls.\<close>

fun outcomes :: "event list \<Rightarrow> (path \<times> unit result) list" where
  "outcomes [] = []"
| "outcomes (ProcessDir p b r # es) = (p, r) # outcomes es"
| "outcomes (e # es) = outcomes es"

text \<open>
  What follows each failing call in a trace: after a call that raised an exception of the
  class \<open>Exception\<close>, the next event is the entry of \<open>logger.exception\<close> with the path of
  that call and that exception, and the trace goes on after it; a call that raised
  anything else is the last event.
\<close>

fun failures_handled :: "event list \<Rightarrow> bool" where
  "failures_handled [] = True"
| "failures_handled (ProcessDir p b (Raised e) # es) =
     (if isinstance_Exception e
      then take 1 es = [Log ERROR (ErrorWhile p) (Some e)] \<and> drop 1 es \<noteq> []
             \<and> failures_handled es
      else es = [])"
| "failures_handled (e # es) = failures_handled es"

definition ordinary :: "(path \<times> py_exception) list \<Rightarrow> bool" where
  "ordinary fs = list_all (\<lambda>f. isinstance_Exception (snd f)) fs"

section \<open>The confirmation as the specification words it\<close>

text \<open>
  The specification lets the run proceed when the \<^emph>\<open>trimmed\<close>, case-insensitive input is
  \<open>y\<close> or \<open>yes\<close>. \<open>spec_affirmative\<close> follows these words, with \<open>strip\<close> for Python's
  \<open>str.strip\<close> on ASCII white space; \<open>confirm\<close> above follows the source.
\<close>

definition is_space :: "char \<Rightarrow> bool" where
  "is_space c = (let n = (of_char c :: nat) in (9 \<le> n \<and> n \<le> 13) \<or> (28 \<le> n \<and> n \<le> 32))"

definition strip :: "string \<Rightarrow> string" where
  "strip s = rev (dropWhile is_space (rev (dropWhile is_space s)))"

definition spec_affirmative :: "string \<Rightarrow> bool" where
  "spec_affirmative inp = (lower (strip inp) \<in> set [''y'', ''yes''])"

section \<open>An example library\<close>

text \<open>
  A current directory \<open>/lib\<close> with a directory \<open>manga\<close> that holds three volumes,
  the output directory \<open>_ocr\<close>, a directory \<open>_ocr.bak\<close> and a file \<open>notes.txt\<close>. Processing
  \<open>vol2\<close> raises the exception \<open>x\<close>; the world counts the calls of \<open>process_dir\<close>.
\<close>

definition example_env :: "string option \<Rightarrow> py_exception \<Rightarrow> nat env" where
  "example_env inp x =
     \<lparr>absolute = (\<lambda>s. ''/lib/'' @ s),
      iterdir = (\<lambda>d. if d = ''/lib/manga''
         then Inr [''/lib/manga/vol10'', ''/lib/manga/_ocr'', ''/lib/manga/vol2'',
                   ''/lib/manga/_ocr.bak'', ''/lib/manga/notes.txt'', ''/lib/manga/vol1'']
         else Inl ''No such file or directory''),
      is_dir = (\<lambda>p. p \<noteq> ''/lib/manga/notes.txt''),
      input_line = inp,
      process_dir = (\<lambda>g p b w.
         (if p = ''/lib/manga/vol2'' then Raised x else Returned (), Suc w))\<rparr>"

text \<open>The defaults of the keyword arguments, for the given paths and parent directory.\<close>

definition example_args :: "string list \<Rightarrow> string option \<Rightarrow> run_args" where
  "example_args ps d =
     \<lparr>paths = ps, parent_dir = d,
      pretrained_model_name_or_path = ''kha-white/manga-ocr-base'',
      force_cpu = False, as_one_file = True, disable_confirmation = False,
      disable_ocr = False, right_to_left = True, double_page_view = True,
      has_cover = False, ctrl_to_pan = False, display_ocr = True,
      textbox_borders = False, editable_text = False, eink_mode = False,
      textbox_click_toggle = False\<rparr>"

text \<open>The same library, where processing a path listed in \<open>xs\<close> raises the exception
  listed with it.\<close>

definition example_env_raising :: "string option \<Rightarrow> (path \<times> py_exception) list \<Rightarrow> nat env" where
  "example_env_raising inp xs =
     (example_env inp GeneratorExit)
       \<lparr>process_dir := (\<lambda>g p b w.
          (case map_of xs p of Some x \<Rightarrow> Raised x | None \<Rightarrow> Returned (), Suc w))\<rparr>"

section \<open>Traces\<close>

lemma attempted_append: "attempted (xs @ ys) = attempted xs @ attempted ys"
  by (induction xs rule: attempted.induct) simp_all

lemma failures_append: "failures (xs @ ys) = failures xs @ failures ys"
  by (induction xs rule: failures.induct) simp_all

lemma logged_errors_append: "logged_errors (xs @ ys) = logged_errors xs @ logged_errors ys"
  by (induction xs rule: logged_errors.induct) simp_all

lemma error_diagnostics_append:
  "error_diagnostics (xs @ ys) = error_diagnostics xs @ error_diagnostics ys"
  by (induction xs rule: error_diagnostics.induct) simp_all

lemma progress_append: "progress (xs @ ys) = progress xs @ progress ys"
  by (induction xs rule: progress.induct) simp_all

lemma summaries_append: "summaries (xs @ ys) = summaries xs @ summaries ys"
  by (induction xs rule: summaries.induct) simp_all

lemma prompts_append: "prompts (xs @ ys) = prompts xs @ prompts ys"
  by (induction xs rule: prompts.induct) simp_all

lemma observe_prints:
  "attempted (map Print ps) = []" "failures (map Print ps) = []"
  "logged_errors (map Print ps) = []" "error_diagnostics (map Print ps) = []"
  "progress (map Print ps) = []" "summaries (map Print ps) = []" "prompts (map Print ps) = []"
  by (induction ps) simp_all

lemma set_nat_insort: "set (nat_insort x ys) = insert x (set ys)"
  by (induction ys) auto

lemma length_nat_insort: "length (nat_insort x ys) = Suc (length ys)"
  by (induction ys) auto

lemma distinct_nat_insort: "distinct (nat_insort x ys) = (x \<notin> set ys \<and> distinct ys)"
  by (induction ys) (auto simp: set_nat_insort)

lemma set_natsorted: "set (natsorted ps) = set ps"
  unfolding natsorted_def by (induction ps) (simp_all add: set_nat_insort)

lemma length_natsorted: "length (natsorted ps) = length ps"
  unfolding natsorted_def by (induction ps) (simp_all add: length_nat_insort)

lemma distinct_natsorted: "distinct (natsorted ps) = distinct ps"
proof (induction ps)
  case Nil
  show ?case by (simp add: natsorted_def)
next
  case (Cons p ps)
  have "natsorted (p # ps) = nat_insort p (natsorted ps)"
    by (simp add: natsorted_def)
  with Cons show ?case
    by (simp add: distinct_nat_insort set_natsorted)
qed

lemma natsorted_Nil_iff: "natsorted ps = [] \<longleftrightarrow> ps = []"
  using length_natsorted [of ps] by (metis length_0_conv)

lemma scan_append:
  "\<exists>added. scan env cs ps = ps @ added \<and> distinct added \<and> set added \<inter> set ps = {}
     \<and> (\<forall>c\<in>set added. c \<in> set cs \<and> is_dir env c \<and> stem c \<noteq> ''_ocr'')"
proof (induction cs arbitrary: ps)
  case Nil
  show ?case by simp
next
  case (Cons c cs)
  show ?case
  proof (cases "is_dir env c \<and> stem c \<noteq> ''_ocr'' \<and> c \<notin> set ps")
    case True
    from Cons [of "ps @ [c]"] obtain added where
      a: "scan env cs (ps @ [c]) = (ps @ [c]) @ added" "distinct added"
         "set added \<inter> set (ps @ [c]) = {}"
         "\<forall>x\<in>set added. x \<in> set cs \<and> is_dir env x \<and> stem x \<noteq> ''_ocr''"
      by blast
    have "scan env (c # cs) ps = ps @ (c # added)"
      using True a(1) by simp
    moreover have "distinct (c # added)" using a(2,3) by auto
    moreover have "set (c # added) \<inter> set ps = {}" using a(3) True by auto
    moreover have "\<forall>x\<in>set (c # added). x \<in> set (c # cs) \<and> is_dir env x \<and> stem x \<noteq> ''_ocr''"
      using a(4) True by auto
    ultimately show ?thesis by blast
  next
    case False
    from Cons [of ps] obtain added where
      a: "scan env cs ps = ps @ added" "distinct added" "set added \<inter> set ps = {}"
         "\<forall>x\<in>set added. x \<in> set cs \<and> is_dir env x \<and> stem x \<noteq> ''_ocr''"
      by blast
    have "scan env (c # cs) ps = ps @ added"
      using False a(1) by auto
    moreover have "\<forall>x\<in>set added. x \<in> set (c # cs) \<and> is_dir env x \<and> stem x \<noteq> ''_ocr''"
      using a(4) by auto
    ultimately show ?thesis using a(2,3) by blast
  qed
qed

lemma batch_ok:
  "batch env g b n i ps k w = (r, evs, w') \<Longrightarrow> ordinary (failures evs) \<Longrightarrow>
     r = Returned (k + length ps - length (failures evs)) \<and>
     length (failures evs) \<le> length ps \<and>
     attempted evs = ps \<and>
     logged_errors evs = failures evs \<and>
     progress evs = map (\<lambda>(j, p). (j + 1, n, p)) (enumerate i ps) \<and>
     summaries evs = [] \<and> prompts evs = []"
proof (induction ps arbitrary: i k w r evs w')
  case Nil
  then show ?case by simp
next
  case (Cons p ps)
  obtain r1 w1 where pd: "process_dir env g p b w = (r1, w1)"
    by (cases "process_dir env g p b w")
  show ?case
  proof (cases r1)
    case (Returned u)
    obtain r2 evs2 w2 where rec: "batch env g b n (i + 1) ps (k + 1) w1 = (r2, evs2, w2)"
      by (cases "batch env g b n (i + 1) ps (k + 1) w1")
    from Cons.prems(1) pd Returned rec
    have eq: "r = r2" "w' = w2"
      "evs = Log INFO (Processing (i + 1) n p) None # ProcessDir p b (Returned ()) # evs2"
      by simp_all
    from Cons.prems(2) eq(3) have "ordinary (failures evs2)" by simp
    from Cons.IH [OF rec this] eq show ?thesis by auto
  next
    case (Raised e)
    show ?thesis
    proof (cases "isinstance_Exception e")
      case True
      obtain r2 evs2 w2 where rec: "batch env g b n (i + 1) ps k w1 = (r2, evs2, w2)"
        by (cases "batch env g b n (i + 1) ps k w1")
      from Cons.prems(1) pd Raised True rec
      have eq: "r = r2" "w' = w2"
        "evs = Log INFO (Processing (i + 1) n p) None # ProcessDir p b (Raised e)
                 # Log ERROR (ErrorWhile p) (Some e) # evs2"
        by simp_all
      from Cons.prems(2) eq(3) have "ordinary (failures evs2)" by (simp add: ordinary_def)
      from Cons.IH [OF rec this] eq show ?thesis by auto
    next
      case False
      from Cons.prems(1) pd Raised False
      have "evs = [Log INFO (Processing (i + 1) n p) None, ProcessDir p b (Raised e)]"
        by simp
      with Cons.prems(2) False show ?thesis by (simp add: ordinary_def)
    qed
  qed
qed

lemma batch_fatal:
  "batch env g b n i ps k w = (r, evs, w') \<Longrightarrow> \<not> ordinary (failures evs) \<Longrightarrow>
     r = Raised (snd (last (failures evs))) \<and>
     \<not> isinstance_Exception (snd (last (failures evs))) \<and>
     last evs = ProcessDir (fst (last (failures evs))) b (Raised (snd (last (failures evs)))) \<and>
     fst (last (failures evs)) = last (attempted evs) \<and>
     attempted evs = take (length (attempted evs)) ps \<and>
     attempted evs \<noteq> [] \<and>
     logged_errors evs = butlast (failures evs) \<and>
     summaries evs = [] \<and> prompts evs = []"
proof (induction ps arbitrary: i k w r evs w')
  case Nil
  then show ?case by (simp add: ordinary_def)
next
  case (Cons p ps)
  obtain r1 w1 where pd: "process_dir env g p b w = (r1, w1)"
    by (cases "process_dir env g p b w")
  show ?case
  proof (cases r1)
    case (Returned u)
    obtain r2 evs2 w2 where rec: "batch env g b n (i + 1) ps (k + 1) w1 = (r2, evs2, w2)"
      by (cases "batch env g b n (i + 1) ps (k + 1) w1")
    from Cons.prems(1) pd Returned rec
    have eq: "r = r2" "w' = w2"
      "evs = Log INFO (Processing (i + 1) n p) None # ProcessDir p b (Returned ()) # evs2"
      by simp_all
    from Cons.prems(2) eq(3) have no: "\<not> ordinary (failures evs2)" by simp
    from Cons.IH [OF rec no] have ih: "r2 = Raised (snd (last (failures evs2)))"
     "\<not> isinstance_Exception (snd (last (failures evs2)))"
     "last evs2 = ProcessDir (fst (last (failures evs2))) b (Raised (snd (last (failures evs2))))"
     "fst (last (failures evs2)) = last (attempted evs2)"
     "attempted evs2 = take (length (attempted evs2)) ps"
     "attempted evs2 \<noteq> []"
     "logged_errors evs2 = butlast (failures evs2)"
     "summaries evs2 = []" "prompts evs2 = []" by simp_all
    from ih(6) have ne: "evs2 \<noteq> []" by auto
    from no have fne: "failures evs2 \<noteq> []" by (auto simp: ordinary_def)
    show ?thesis using ih ne fne eq by simp
  next
    case (Raised e)
    show ?thesis
    proof (cases "isinstance_Exception e")
      case True
      obtain r2 evs2 w2 where rec: "batch env g b n (i + 1) ps k w1 = (r2, evs2, w2)"
        by (cases "batch env g b n (i + 1) ps k w1")
      from Cons.prems(1) pd Raised True rec
      have eq: "r = r2" "w' = w2"
        "evs = Log INFO (Processing (i + 1) n p) None # ProcessDir p b (Raised e)
                 # Log ERROR (ErrorWhile p) (Some e) # evs2"
        by simp_all
      from Cons.prems(2) eq(3) True have no: "\<not> ordinary (failures evs2)"
        by (simp add: ordinary_def)
      from Cons.IH [OF rec no] have ih: "r2 = Raised (snd (last (failures evs2)))"
       "\<not> isinstance_Exception (snd (last (failures evs2)))"
       "last evs2 = ProcessDir (fst (last (failures evs2))) b (Raised (snd (last (failures evs2))))"
       "fst (last (failures evs2)) = last (attempted evs2)"
       "attempted evs2 = take (length (attempted evs2)) ps"
       "attempted evs2 \<noteq> []"
       "logged_errors evs2 = butlast (failures evs2)"
       "summaries evs2 = []" "prompts evs2 = []" by simp_all
      from ih(6) have ne: "evs2 \<noteq> []" by auto
      from no have fne: "failures evs2 \<noteq> []" by (auto simp: ordinary_def)
      show ?thesis using ih ne fne eq by simp
    next
      case False
      from Cons.prems(1) pd Raised False
      have "evs = [Log INFO (Processing (i + 1) n p) None, ProcessDir p b (Raised e)]"
        "r = Raised e"
        by simp_all
      with False show ?thesis by simp
    qed
  qed
qed

lemma confirm_events:
  "snd (confirm env a) = (if disable_confirmation a then [] else [Input confirm_prompt])"
  by (simp add: confirm_def split: option.splits)

lemma run_proceeds:
  assumes "resolve env a = Inr ws" and "ws \<noteq> []" and "fst (confirm env a) = Returned True"
    and "batch env (OverlayGenerator a) (as_one_file a) (length ws) 0 (natsorted ws) 0 w
           = (rb, bevs, wb)"
  shows "\<exists>pre. attempted pre = [] \<and> failures pre = [] \<and> logged_errors pre = []
           \<and> error_diagnostics pre = [] \<and> progress pre = [] \<and> summaries pre = []
           \<and> prompts pre = (if disable_confirmation a then [] else [confirm_prompt])
           \<and> run env a w =
               (case rb of
                  Returned k \<Rightarrow>
                    (Returned (), pre @ bevs @ [Log INFO (Summary k (length ws)) None], wb)
                | Raised e \<Rightarrow> (Raised e, pre @ bevs, wb))"
proof -
  define evs0 where "evs0 = (if disable_ocr a then [Log INFO OcrDisabled None] else [])"
  define pre where
    "pre = evs0 @ Print paths_header # map Print (natsorted ws) @ snd (confirm env a)"
  from assms(3) have c: "confirm env a = (Returned True, snd (confirm env a))"
    by (cases "confirm env a") simp
  have obs: "attempted pre = []" "failures pre = []" "logged_errors pre = []"
    "error_diagnostics pre = []" "progress pre = []" "summaries pre = []"
    "prompts pre = (if disable_confirmation a then [] else [confirm_prompt])"
    by (simp_all add: pre_def evs0_def confirm_events attempted_append failures_append
        logged_errors_append error_diagnostics_append progress_append summaries_append
        prompts_append observe_prints)
  have "run env a w =
      (case rb of
         Returned k \<Rightarrow> (Returned (), pre @ bevs @ [Log INFO (Summary k (length ws)) None], wb)
       | Raised e \<Rightarrow> (Raised e, pre @ bevs, wb))"
    unfolding run_def Let_def
    apply (subst c)
    apply (simp add: assms(1,2,4) length_natsorted pre_def evs0_def split: result.splits)
    done
  with obs show ?thesis by blast
qed

lemma run_rejected:
  assumes "resolve env a = Inr ws" and "ws \<noteq> []" and "fst (confirm env a) = Returned False"
  shows "run env a w =
     (Returned (),
      (if disable_ocr a then [Log INFO OcrDisabled None] else [])
        @ Print paths_header # map Print (natsorted ws) @ snd (confirm env a), w)"
proof -
  from assms(3) have c: "confirm env a = (Returned False, snd (confirm env a))"
    by (cases "confirm env a") simp
  show ?thesis
    unfolding run_def Let_def
    apply (subst c)
    apply (simp add: assms(1,2))
    done
qed

section \<open>Resolution and natural sort: auxiliary facts\<close>

lemma batch_attempted_hd:
  "batch env g b n i ps k w = (r, evs, w') \<Longrightarrow> ps \<noteq> [] \<Longrightarrow>
     attempted evs \<noteq> [] \<and> hd (attempted evs) = hd ps"
  by (cases ps) (auto split: prod.splits result.splits if_splits)

lemma resolve_append:
  assumes "resolve env a = Inr ws"
  shows "\<exists>added. ws = map (absolute env) (paths a) @ added \<and> distinct added
           \<and> set added \<inter> set (map (absolute env) (paths a)) = {}
           \<and> (\<forall>c\<in>set added. is_dir env c \<and> stem c \<noteq> ''_ocr'')"
proof (cases "parent_dir a")
  case None
  with assms have "ws = map (absolute env) (paths a) @ []"
    by (simp add: resolve_def)
  then show ?thesis by (intro exI [of _ "[]"]) simp
next
  case (Some d)
  with assms obtain cs where "ws = scan env cs (map (absolute env) (paths a))"
    by (auto simp: resolve_def split: sum.splits)
  with scan_append [of env cs "map (absolute env) (paths a)"] show ?thesis
    by blast
qed

lemma stem_of_sentinel: "name c = ''_ocr'' \<Longrightarrow> stem c = ''_ocr''"
  by (simp add: stem_def rfind_def)

lemma stem_of_backup: "name c = ''_ocr.bak'' \<Longrightarrow> stem c = ''_ocr''"
  by (simp add: stem_def rfind_def)

lemma cons_run_append: "xs \<noteq> [] \<Longrightarrow> cons_run c (xs @ ys) = cons_run c xs @ ys"
  by (cases xs) (auto split: prod.splits)

lemma cons_run_not_Nil: "cons_run c xs \<noteq> []"
  by (cases "(c, xs)" rule: cons_run.cases) auto

lemma foldr_cons_run_append:
  "xs \<noteq> [] \<Longrightarrow> foldr cons_run s (xs @ ys) = foldr cons_run s xs @ ys \<and> foldr cons_run s xs \<noteq> []"
  by (induction s) (simp_all add: cons_run_append cons_run_not_Nil)

lemma runs_digits: "ds \<noteq> [] \<Longrightarrow> list_all is_digit ds \<Longrightarrow> runs ds = [(True, ds)]"
proof (induction ds)
  case Nil
  then show ?case by simp
next
  case (Cons c ds)
  show ?case
  proof (cases ds)
    case Nil
    with Cons.prems show ?thesis by (simp add: runs_def)
  next
    case (Cons d ds')
    with Cons.IH Cons.prems have "runs ds = [(True, ds)]" by simp
    with Cons.prems show ?thesis by (simp add: runs_def)
  qed
qed

lemma runs_numeric_suffix:
  assumes "s \<noteq> []" and "\<not> is_digit (last s)" and "ds \<noteq> []" and "list_all is_digit ds"
  shows "runs (s @ ds) = runs s @ [(True, ds)] \<and> runs s \<noteq> []"
proof -
  from assms(1) have s: "s = butlast s @ [last s]" by simp
  have "runs (s @ ds) = foldr cons_run (butlast s) (cons_run (last s) (runs ds))"
    by (subst s) (simp add: runs_def)
  also have "cons_run (last s) (runs ds) = [(False, [last s])] @ [(True, ds)]"
    using assms(2) by (simp add: runs_digits [OF assms(3,4)])
  also have "foldr cons_run (butlast s) ([(False, [last s])] @ [(True, ds)])
      = foldr cons_run (butlast s) [(False, [last s])] @ [(True, ds)]"
    using foldr_cons_run_append [of "[(False, [last s])]"] by blast
  also have "foldr cons_run (butlast s) [(False, [last s])] = runs s"
    using assms(2) by (subst (2) s) (simp add: runs_def)
  finally have "runs (s @ ds) = runs s @ [(True, ds)]" .
  moreover have "runs s \<noteq> []"
    using assms(1) by (cases s) (simp_all add: runs_def cons_run_not_Nil)
  ultimately show ?thesis by simp
qed

lemma sep_inserter_append: "xs \<noteq> [] \<Longrightarrow> sep_inserter (xs @ ys) = sep_inserter xs @ ys"
  by (cases xs rule: sep_inserter.cases) simp_all

lemma natsort_key_numeric_suffix:
  assumes "s \<noteq> []" and "\<not> is_digit (last s)" and "ds \<noteq> []" and "list_all is_digit ds"
  shows "natsort_key (s @ ds) = natsort_key s @ [Num (decimal ds)]"
  using runs_numeric_suffix [OF assms]
  by (simp add: natsort_key_def sep_inserter_append)

lemma str_less_irrefl: "\<not> str_less s s"
  by (induction s) simp_all

lemma chunk_less_irrefl: "\<not> chunk_less c c"
  by (cases c) (simp_all add: str_less_irrefl)

lemma key_less_common_prefix: "key_less (k @ xs) (k @ ys) = key_less xs ys"
  by (induction k) (simp_all add: chunk_less_irrefl)

lemma str_less_common_prefix: "str_less (d @ x) (d @ y) = str_less x y"
  by (induction d) simp_all

section \<open>Failures in the batch and the natural order: auxiliary facts\<close>

lemma outcomes_append: "outcomes (xs @ ys) = outcomes xs @ outcomes ys"
  by (induction xs rule: outcomes.induct) simp_all

lemma map_fst_outcomes: "map fst (outcomes evs) = attempted evs"
  by (induction evs rule: outcomes.induct) simp_all

lemma attempted_Nil_outcomes: "attempted evs = [] \<Longrightarrow> outcomes evs = []"
  using map_fst_outcomes [of evs] by simp

lemma length_failures_le: "length (failures evs) \<le> length (attempted evs)"
  by (induction evs rule: failures.induct) simp_all

lemma failures_handled_prefix:
  "failures xs = [] \<Longrightarrow> failures_handled (xs @ ys) = failures_handled ys"
  by (induction xs rule: failures.induct) simp_all

lemma batch_logged:
  "batch env g b n i ps k w = (r, evs, w') \<Longrightarrow>
     logged_errors evs = filter (\<lambda>f. isinstance_Exception (snd f)) (failures evs)"
proof (induction ps arbitrary: i k w r evs w')
  case Nil
  then show ?case by simp
next
  case (Cons p ps)
  obtain r1 w1 where pd: "process_dir env g p b w = (r1, w1)"
    by (cases "process_dir env g p b w")
  show ?case
  proof (cases r1)
    case (Returned u)
    obtain r2 evs2 w2 where rec: "batch env g b n (i + 1) ps (k + 1) w1 = (r2, evs2, w2)"
      by (cases "batch env g b n (i + 1) ps (k + 1) w1")
    from Cons.prems pd Returned rec
    have "evs = Log INFO (Processing (i + 1) n p) None # ProcessDir p b (Returned ()) # evs2"
      by simp
    with Cons.IH [OF rec] show ?thesis by simp
  next
    case (Raised e)
    show ?thesis
    proof (cases "isinstance_Exception e")
      case True
      obtain r2 evs2 w2 where rec: "batch env g b n (i + 1) ps k w1 = (r2, evs2, w2)"
        by (cases "batch env g b n (i + 1) ps k w1")
      from Cons.prems pd Raised True rec
      have "evs = Log INFO (Processing (i + 1) n p) None # ProcessDir p b (Raised e)
                 # Log ERROR (ErrorWhile p) (Some e) # evs2"
        by simp
      with Cons.IH [OF rec] True show ?thesis by simp
    next
      case False
      from Cons.prems pd Raised False
      have "evs = [Log INFO (Processing (i + 1) n p) None, ProcessDir p b (Raised e)]"
        by simp
      with False show ?thesis by simp
    qed
  qed
qed

lemma batch_progress:
  "batch env g b n i ps k w = (r, evs, w') \<Longrightarrow>
     progress evs = map (\<lambda>(j, p). (j + 1, n, p)) (enumerate i (attempted evs))"
proof (induction ps arbitrary: i k w r evs w')
  case Nil
  then show ?case by simp
next
  case (Cons p ps)
  obtain r1 w1 where pd: "process_dir env g p b w = (r1, w1)"
    by (cases "process_dir env g p b w")
  show ?case
  proof (cases r1)
    case (Returned u)
    obtain r2 evs2 w2 where rec: "batch env g b n (i + 1) ps (k + 1) w1 = (r2, evs2, w2)"
      by (cases "batch env g b n (i + 1) ps (k + 1) w1")
    from Cons.prems pd Returned rec
    have "evs = Log INFO (Processing (i + 1) n p) None # ProcessDir p b (Returned ()) # evs2"
      by simp
    with Cons.IH [OF rec] show ?thesis by simp
  next
    case (Raised e)
    show ?thesis
    proof (cases "isinstance_Exception e")
      case True
      obtain r2 evs2 w2 where rec: "batch env g b n (i + 1) ps k w1 = (r2, evs2, w2)"
        by (cases "batch env g b n (i + 1) ps k w1")
      from Cons.prems pd Raised True rec
      have "evs = Log INFO (Processing (i + 1) n p) None # ProcessDir p b (Raised e)
                 # Log ERROR (ErrorWhile p) (Some e) # evs2"
        by simp
      with Cons.IH [OF rec] show ?thesis by simp
    next
      case False
      from Cons.prems pd Raised False
      have "evs = [Log INFO (Processing (i + 1) n p) None, ProcessDir p b (Raised e)]"
        by simp
      then show ?thesis by simp
    qed
  qed
qed

lemma batch_handled:
  "batch env g b n i ps k w = (r, evs, w') \<Longrightarrow>
     failures_handled (evs @ (case r of Returned c \<Rightarrow> [Log INFO (m c) None] | Raised e \<Rightarrow> []))
     \<and> (evs @ (case r of Returned c \<Rightarrow> [Log INFO (m c) None] | Raised e \<Rightarrow> [])) \<noteq> []"
proof (induction ps arbitrary: i k w r evs w')
  case Nil
  then show ?case by auto
next
  case (Cons p ps)
  obtain r1 w1 where pd: "process_dir env g p b w = (r1, w1)"
    by (cases "process_dir env g p b w")
  show ?case
  proof (cases r1)
    case (Returned u)
    obtain r2 evs2 w2 where rec: "batch env g b n (i + 1) ps (k + 1) w1 = (r2, evs2, w2)"
      by (cases "batch env g b n (i + 1) ps (k + 1) w1")
    from Cons.prems pd Returned rec
    have "r = r2"
      "evs = Log INFO (Processing (i + 1) n p) None # ProcessDir p b (Returned ()) # evs2"
      by simp_all
    with Cons.IH [OF rec] show ?thesis by simp
  next
    case (Raised e)
    show ?thesis
    proof (cases "isinstance_Exception e")
      case True
      obtain r2 evs2 w2 where rec: "batch env g b n (i + 1) ps k w1 = (r2, evs2, w2)"
        by (cases "batch env g b n (i + 1) ps k w1")
      from Cons.prems pd Raised True rec
      have "r = r2"
        "evs = Log INFO (Processing (i + 1) n p) None # ProcessDir p b (Raised e)
                 # Log ERROR (ErrorWhile p) (Some e) # evs2"
        by simp_all
      with Cons.IH [OF rec] True show ?thesis by simp
    next
      case False
      from Cons.prems pd Raised False
      have "r = Raised e"
        "evs = [Log INFO (Processing (i + 1) n p) None, ProcessDir p b (Raised e)]"
        by simp_all
      with False show ?thesis by simp
    qed
  qed
qed

lemma batch_continues:
  "batch env g b n i ps k w = (r, evs, w') \<Longrightarrow> j < length (outcomes evs) \<Longrightarrow>
     snd (outcomes evs ! j) = Raised e \<Longrightarrow> isinstance_Exception e \<Longrightarrow>
     Suc j < length ps \<Longrightarrow> Suc j < length (outcomes evs)"
proof (induction ps arbitrary: i k w r evs w' j)
  case Nil
  then show ?case by simp
next
  case (Cons p ps)
  obtain r1 w1 where pd: "process_dir env g p b w = (r1, w1)"
    by (cases "process_dir env g p b w")
  have step: "Suc j < length (outcomes evs)"
    if rec: "batch env g b n (i + 1) ps c w1 = (r2, evs2, w2)"
      and o: "outcomes evs = (p, r1) # outcomes evs2"
    for c r2 evs2 w2
  proof (cases j)
    case 0
    with Cons.prems(5) have "ps \<noteq> []" by auto
    from batch_attempted_hd [OF rec this] have "outcomes evs2 \<noteq> []"
      using map_fst_outcomes [of evs2] by auto
    with 0 o show ?thesis by simp
  next
    case (Suc j')
    with Cons.prems(2,3,5) o have "j' < length (outcomes evs2)"
      "snd (outcomes evs2 ! j') = Raised e" "Suc j' < length ps"
      by simp_all
    from Cons.IH [OF rec this(1,2) Cons.prems(4) this(3)] Suc o show ?thesis by simp
  qed
  show ?case
  proof (cases r1)
    case (Returned u)
    obtain r2 evs2 w2 where rec: "batch env g b n (i + 1) ps (k + 1) w1 = (r2, evs2, w2)"
      by (cases "batch env g b n (i + 1) ps (k + 1) w1")
    from Cons.prems(1) pd Returned rec
    have "evs = Log INFO (Processing (i + 1) n p) None # ProcessDir p b (Returned ()) # evs2"
      by simp
    then have "outcomes evs = (p, r1) # outcomes evs2" using Returned by simp
    from step [OF rec this] show ?thesis .
  next
    case (Raised x)
    show ?thesis
    proof (cases "isinstance_Exception x")
      case True
      obtain r2 evs2 w2 where rec: "batch env g b n (i + 1) ps k w1 = (r2, evs2, w2)"
        by (cases "batch env g b n (i + 1) ps k w1")
      from Cons.prems(1) pd Raised True rec
      have "evs = Log INFO (Processing (i + 1) n p) None # ProcessDir p b (Raised x)
                 # Log ERROR (ErrorWhile p) (Some x) # evs2"
        by simp
      then have "outcomes evs = (p, r1) # outcomes evs2" using Raised by simp
      from step [OF rec this] show ?thesis .
    next
      case False
      from Cons.prems(1) pd Raised False
      have "evs = [Log INFO (Processing (i + 1) n p) None, ProcessDir p b (Raised x)]"
        by simp
      with Cons.prems(2,3,4) False show ?thesis by simp
    qed
  qed
qed

lemma str_less_trans: "str_less a b \<Longrightarrow> str_less b c \<Longrightarrow> str_less a c"
proof (induction a arbitrary: b c)
  case Nil
  then show ?case by (cases b; cases c) simp_all
next
  case (Cons x a)
  from Cons.prems obtain y b' where b: "b = y # b'" by (cases b) simp_all
  from Cons.prems b obtain z c' where c: "c = z # c'" by (cases c) simp_all
  from Cons.prems Cons.IH [of b' c'] show ?case unfolding b c by auto
qed

lemma str_less_total: "a \<noteq> b \<Longrightarrow> str_less a b \<or> str_less b a"
proof (induction a arbitrary: b)
  case Nil
  then show ?case by (cases b) simp_all
next
  case (Cons x a)
  show ?case
  proof (cases b)
    case Nil
    then show ?thesis by simp
  next
    case (Cons y b')
    show ?thesis
    proof (cases "x = y")
      case True
      with Cons.prems Cons have "a \<noteq> b'" by simp
      from Cons.IH [OF this] True Cons show ?thesis by simp
    next
      case False
      then have "(of_char x :: nat) \<noteq> of_char y" by simp
      then have "(of_char x :: nat) < of_char y \<or> (of_char y :: nat) < of_char x" by arith
      with Cons show ?thesis by auto
    qed
  qed
qed

lemma chunk_less_trans: "chunk_less a b \<Longrightarrow> chunk_less b c \<Longrightarrow> chunk_less a c"
  by (cases a; cases b; cases c) (auto dest: str_less_trans)

lemma chunk_less_total: "a \<noteq> b \<Longrightarrow> chunk_less a b \<or> chunk_less b a"
  by (cases a; cases b) (auto dest: str_less_total)

lemma key_less_irrefl: "\<not> key_less k k"
  by (induction k) (simp_all add: chunk_less_irrefl)

lemma key_less_trans: "key_less a b \<Longrightarrow> key_less b c \<Longrightarrow> key_less a c"
proof (induction a arbitrary: b c)
  case Nil
  then show ?case by (cases b; cases c) simp_all
next
  case (Cons x a)
  from Cons.prems obtain y b' where b: "b = y # b'" by (cases b) simp_all
  from Cons.prems b obtain z c' where c: "c = z # c'" by (cases c) simp_all
  from Cons.prems Cons.IH [of b' c'] show ?case
    unfolding b c by (auto dest: chunk_less_trans)
qed

lemma key_less_total: "a \<noteq> b \<Longrightarrow> key_less a b \<or> key_less b a"
proof (induction a arbitrary: b)
  case Nil
  then show ?case by (cases b) simp_all
next
  case (Cons x a)
  show ?case
  proof (cases b)
    case Nil
    then show ?thesis by simp
  next
    case (Cons y b')
    show ?thesis
    proof (cases "x = y")
      case True
      with Cons.prems Cons have "a \<noteq> b'" by simp
      from Cons.IH [OF this] True Cons show ?thesis by auto
    next
      case False
      from chunk_less_total [OF this] Cons show ?thesis by auto
    qed
  qed
qed

lemma natural_le_of_less:
  "key_less (natsort_key y) (natsort_key x) \<Longrightarrow> natural_le y x"
  unfolding natural_le_def using key_less_trans key_less_irrefl by blast

lemma natural_le_trans: "natural_le x y \<Longrightarrow> natural_le y z \<Longrightarrow> natural_le x z"
proof -
  assume xy: "natural_le x y" and yz: "natural_le y z"
  show "natural_le x z"
    unfolding natural_le_def
  proof
    assume zx: "key_less (natsort_key z) (natsort_key x)"
    show False
    proof (cases "natsort_key y = natsort_key z")
      case True
      with zx xy show False by (simp add: natural_le_def)
    next
      case False
      from key_less_total [OF this] yz have "key_less (natsort_key y) (natsort_key z)"
        by (auto simp: natural_le_def)
      from key_less_trans [OF this zx] xy show False by (simp add: natural_le_def)
    qed
  qed
qed

lemma sorted_nat_insort:
  "sorted_wrt natural_le ys \<Longrightarrow> sorted_wrt natural_le (nat_insort x ys)"
proof (induction ys)
  case Nil
  show ?case by simp
next
  case (Cons y ys)
  show ?case
  proof (cases "key_less (natsort_key y) (natsort_key x)")
    case True
    from Cons have "sorted_wrt natural_le (nat_insort x ys)" by simp
    moreover have "\<forall>z\<in>set (nat_insort x ys). natural_le y z"
      using Cons.prems natural_le_of_less [OF True] by (auto simp: set_nat_insort)
    ultimately show ?thesis using True by simp
  next
    case False
    then have xy: "natural_le x y" by (simp add: natural_le_def)
    have "\<forall>z\<in>set ys. natural_le x z"
      using Cons.prems natural_le_trans [OF xy] by auto
    with xy Cons.prems False show ?thesis by simp
  qed
qed

lemma sorted_natsorted: "sorted_wrt natural_le (natsorted ps)"
  unfolding natsorted_def by (induction ps) (simp_all add: sorted_nat_insort)

lemma stable_nat_insort:
  "filter (\<lambda>z. natsort_key z = c) (nat_insort x ys) = filter (\<lambda>z. natsort_key z = c) (x # ys)"
  by (induction ys) (auto simp: key_less_irrefl)

lemma stable_natsorted:
  "filter (\<lambda>z. natsort_key z = c) (natsorted ps) = filter (\<lambda>z. natsort_key z = c) ps"
  unfolding natsorted_def by (induction ps) (simp_all add: stable_nat_insort)

lemma count_nat_insort: "count_list (nat_insort x ys) p = count_list (x # ys) p"
  by (induction ys) auto

lemma count_natsorted: "count_list (natsorted ps) p = count_list ps p"
  unfolding natsorted_def by (induction ps) (simp_all add: count_nat_insort)

lemma sorted_position:
  assumes "sorted_wrt natural_le xs" and "i < length xs" and "j < length xs"
    and "key_less (natsort_key (xs ! i)) (natsort_key (xs ! j))"
  shows "i < j"
proof (rule ccontr)
  assume "\<not> i < j"
  then consider "i = j" | "j < i" by arith
  then show False
  proof cases
    case 1
    with assms(4) show False by (simp add: key_less_irrefl)
  next
    case 2
    from sorted_wrt_nth_less [OF assms(1) 2 assms(2)] assms(4) show False
      by (simp add: natural_le_def)
  qed
qed

lemma runs_hd: "t \<noteq> [] \<Longrightarrow> \<exists>r rs. runs t = (is_digit (hd t), r) # rs"
proof (cases t)
  case Nil
  assume "t \<noteq> []"
  with Nil show ?thesis by simp
next
  case (Cons c t')
  then show ?thesis
    by (cases "runs t'") (auto simp: runs_def)
qed

lemma runs_digits_then:
  assumes "ds \<noteq> []" and "list_all is_digit ds" and "t = [] \<or> \<not> is_digit (hd t)"
  shows "runs (ds @ t) = (True, ds) # runs t"
  using assms(1,2)
proof (induction ds)
  case Nil
  then show ?case by simp
next
  case (Cons c ds)
  show ?case
  proof (cases ds)
    case Nil
    show ?thesis
    proof (cases "t = []")
      case True
      with Nil Cons.prems show ?thesis by (simp add: runs_def)
    next
      case False
      from runs_hd [OF False] assms(3) False obtain r rs where "runs t = (False, r) # rs"
        by auto
      with Nil Cons.prems show ?thesis by (simp add: runs_def)
    qed
  next
    case (Cons d ds')
    with Cons.IH Cons.prems have "runs (ds @ t) = (True, ds) # runs t" by simp
    with Cons.prems show ?thesis by (simp add: runs_def)
  qed
qed

lemma runs_text_number:
  assumes "s \<noteq> []" and "\<not> is_digit (last s)" and "ds \<noteq> []" and "list_all is_digit ds"
    and "t = [] \<or> \<not> is_digit (hd t)"
  shows "runs (s @ ds @ t) = runs s @ (True, ds) # runs t \<and> runs s \<noteq> []"
proof -
  from assms(1) have s: "s = butlast s @ [last s]" by simp
  have "runs (s @ ds @ t) = foldr cons_run (butlast s) (cons_run (last s) (runs (ds @ t)))"
    by (subst s) (simp add: runs_def)
  also have "cons_run (last s) (runs (ds @ t)) = [(False, [last s])] @ (True, ds) # runs t"
    using assms(2) by (simp add: runs_digits_then [OF assms(3,4,5)])
  also have "foldr cons_run (butlast s) ([(False, [last s])] @ (True, ds) # runs t)
      = foldr cons_run (butlast s) [(False, [last s])] @ (True, ds) # runs t"
    using foldr_cons_run_append [of "[(False, [last s])]"] by blast
  also have "foldr cons_run (butlast s) [(False, [last s])] = runs s"
    using assms(2) by (subst (2) s) (simp add: runs_def)
  finally have "runs (s @ ds @ t) = runs s @ (True, ds) # runs t" .
  moreover have "runs s \<noteq> []"
    using assms(1) by (cases s) (simp_all add: runs_def cons_run_not_Nil)
  ultimately show ?thesis by simp
qed

lemma natsort_key_text_number:
  assumes "s \<noteq> []" and "\<not> is_digit (last s)" and "ds \<noteq> []" and "list_all is_digit ds"
    and "t = [] \<or> \<not> is_digit (hd t)"
  shows "natsort_key (s @ ds @ t) = natsort_key s @ Num (decimal ds) # map chunk_of (runs t)"
  using runs_text_number [OF assms]
  by (simp add: natsort_key_def sep_inserter_append)

lemma key_less_numeric_runs:
  assumes "s \<noteq> []" and "\<not> is_digit (last s)" and "ds \<noteq> []" and "list_all is_digit ds"
    and "es \<noteq> []" and "list_all is_digit es"
    and "t = [] \<or> \<not> is_digit (hd t)" and "u = [] \<or> \<not> is_digit (hd u)"
  shows "key_less (natsort_key (s @ ds @ t)) (natsort_key (s @ es @ u))
     \<longleftrightarrow> decimal ds < decimal es
          \<or> (decimal ds = decimal es
               \<and> key_less (map chunk_of (runs t)) (map chunk_of (runs u)))"
  by (simp add: natsort_key_text_number [OF assms(1,2,3,4,7)]
      natsort_key_text_number [OF assms(1,2,5,6,8)] key_less_common_prefix)

section \<open>The claims\<close>

text \<open>
  \<^bold>\<open>C1\<close>, as amended. In every run that reaches the batch (a non-empty working set, the
  confirmation passed), whatever the other volumes do: a call of \<open>process_dir\<close> that raises
  an exception of the class \<open>Exception\<close> is followed at once by the entry of
  \<open>logger.exception\<close> with the path of the volume and the exception, and the run goes on
  after it; the entries so logged are exactly the failures of that class, in their order;
  when a volume comes after the failing one in the sorted working set, it is attempted
  next; and what the run raises, if anything, is never an exception of that class. When
  all the failures are of that class, the run returns, every volume is attempted and the
  summary is written once.
\<close>

theorem ordinary_failure_isolated:
  assumes "resolve env a = Inr ws" and "ws \<noteq> []" and "fst (confirm env a) = Returned True"
    and "run env a w = (r, evs, w')"
  shows "failures_handled evs
     \<and> logged_errors evs = filter (\<lambda>f. isinstance_Exception (snd f)) (failures evs)
     \<and> (\<forall>e. r = Raised e \<longrightarrow> \<not> isinstance_Exception e)
     \<and> (\<forall>j e. j < length (outcomes evs) \<and> snd (outcomes evs ! j) = Raised e
            \<and> isinstance_Exception e \<and> Suc j < length ws
          \<longrightarrow> Suc j < length (attempted evs)
              \<and> attempted evs ! Suc j = natsorted ws ! Suc j)
     \<and> (ordinary (failures evs) \<longrightarrow>
          r = Returned () \<and> attempted evs = natsorted ws
          \<and> logged_errors evs = failures evs \<and> length (summaries evs) = 1)"
proof -
  obtain rb bevs wb where
    b: "batch env (OverlayGenerator a) (as_one_file a) (length ws) 0 (natsorted ws) 0 w
          = (rb, bevs, wb)"
    by (cases "batch env (OverlayGenerator a) (as_one_file a) (length ws) 0 (natsorted ws) 0 w")
  from run_proceeds [OF assms(1-3) b] obtain pre where
    pre: "attempted pre = []" "failures pre = []" "logged_errors pre = []" "summaries pre = []"
    and run: "run env a w =
      (case rb of
         Returned k \<Rightarrow> (Returned (), pre @ bevs @ [Log INFO (Summary k (length ws)) None], wb)
       | Raised e \<Rightarrow> (Raised e, pre @ bevs, wb))"
    by blast
  define rest where
    "rest = (case rb of Returned k \<Rightarrow> [Log INFO (Summary k (length ws)) None] | Raised e \<Rightarrow> [])"
  have evs: "evs = pre @ bevs @ rest"
    and r: "r = (case rb of Returned k \<Rightarrow> Returned () | Raised e \<Rightarrow> Raised e)"
    using run assms(4) by (cases rb; simp add: rest_def)+
  have rest: "failures rest = []" "attempted rest = []" "logged_errors rest = []"
    "outcomes rest = []"
    by (cases rb; simp add: rest_def)+
  have f: "failures evs = failures bevs" and at: "attempted evs = attempted bevs"
    and l: "logged_errors evs = logged_errors bevs" and out: "outcomes evs = outcomes bevs"
    using pre rest attempted_Nil_outcomes [OF pre(1)]
    by (simp_all add: evs failures_append attempted_append logged_errors_append
        outcomes_append)
  have prefix: "attempted bevs = take (length (attempted bevs)) (natsorted ws)"
    using batch_ok [OF b] batch_fatal [OF b] by (cases "ordinary (failures bevs)") simp_all
  have c1: "failures_handled evs"
    using batch_handled [OF b, of "\<lambda>k. Summary k (length ws)"]
    by (simp add: evs failures_handled_prefix [OF pre(2)] rest_def)
  have c2: "logged_errors evs = filter (\<lambda>f. isinstance_Exception (snd f)) (failures evs)"
    using batch_logged [OF b] by (simp add: f l)
  have c3: "\<forall>e. r = Raised e \<longrightarrow> \<not> isinstance_Exception e"
  proof (cases "ordinary (failures bevs)")
    case True
    from batch_ok [OF b True] r show ?thesis by simp
  next
    case False
    from batch_fatal [OF b False] r show ?thesis by simp
  qed
  have c4: "\<forall>j e. j < length (outcomes evs) \<and> snd (outcomes evs ! j) = Raised e
            \<and> isinstance_Exception e \<and> Suc j < length ws
          \<longrightarrow> Suc j < length (attempted evs)
              \<and> attempted evs ! Suc j = natsorted ws ! Suc j"
  proof (intro allI impI)
    fix j e
    assume h: "j < length (outcomes evs) \<and> snd (outcomes evs ! j) = Raised e
            \<and> isinstance_Exception e \<and> Suc j < length ws"
    then have "Suc j < length (outcomes bevs)"
      using batch_continues [OF b, of j e] by (simp add: out length_natsorted)
    then have n: "Suc j < length (attempted bevs)"
      using map_fst_outcomes [of bevs] by (metis length_map)
    have "attempted bevs ! Suc j = take (length (attempted bevs)) (natsorted ws) ! Suc j"
      using prefix by simp
    also have "\<dots> = natsorted ws ! Suc j"
      using n by simp
    finally show "Suc j < length (attempted evs)
        \<and> attempted evs ! Suc j = natsorted ws ! Suc j"
      using n by (simp add: at)
  qed
  have c5: "ordinary (failures evs) \<longrightarrow>
          r = Returned () \<and> attempted evs = natsorted ws
          \<and> logged_errors evs = failures evs \<and> length (summaries evs) = 1"
  proof
    assume "ordinary (failures evs)"
    then have o: "ordinary (failures bevs)" by (simp add: f)
    from batch_ok [OF b o] obtain k where
      ok: "rb = Returned k" "attempted bevs = natsorted ws"
        "logged_errors bevs = failures bevs" "summaries bevs = []"
      by blast
    from ok(1) have "evs = pre @ bevs @ [Log INFO (Summary k (length ws)) None]"
      by (simp add: evs rest_def)
    then have "length (summaries evs) = 1"
      using pre ok by (simp add: summaries_append)
    with ok r f l at show "r = Returned () \<and> attempted evs = natsorted ws
          \<and> logged_errors evs = failures evs \<and> length (summaries evs) = 1"
      by simp
  qed
  from c1 c2 c3 c4 c5 show ?thesis by blast
qed

theorem ordinary_failure_isolated_witness:
  "resolve (example_env_raising (Some ''y'') [(''/lib/manga/vol1'', OtherException ''corrupt page''), (''/lib/manga/vol10'', SystemExit 1)]) (example_args [''manga/vol1''] (Some ''manga'')) = Inr [''/lib/manga/vol1'', ''/lib/manga/vol10'', ''/lib/manga/vol2'']
   \<and> fst (confirm (example_env_raising (Some ''y'') [(''/lib/manga/vol1'', OtherException ''corrupt page''), (''/lib/manga/vol10'', SystemExit 1)]) (example_args [''manga/vol1''] (Some ''manga''))) = Returned True
   \<and> outcomes (fst (snd (run (example_env_raising (Some ''y'') [(''/lib/manga/vol1'', OtherException ''corrupt page''), (''/lib/manga/vol10'', SystemExit 1)]) (example_args [''manga/vol1''] (Some ''manga'')) 0)))
       = [(''/lib/manga/vol1'', Raised (OtherException ''corrupt page'')), (''/lib/manga/vol2'', Returned ()),
          (''/lib/manga/vol10'', Raised (SystemExit 1))]
   \<and> failures_handled (fst (snd (run (example_env_raising (Some ''y'') [(''/lib/manga/vol1'', OtherException ''corrupt page''), (''/lib/manga/vol10'', SystemExit 1)]) (example_args [''manga/vol1''] (Some ''manga'')) 0)))
   \<and> logged_errors (fst (snd (run (example_env_raising (Some ''y'') [(''/lib/manga/vol1'', OtherException ''corrupt page''), (''/lib/manga/vol10'', SystemExit 1)]) (example_args [''manga/vol1''] (Some ''manga'')) 0))) = [(''/lib/manga/vol1'', OtherException ''corrupt page'')]
   \<and> Suc 0 < length (attempted (fst (snd (run (example_env_raising (Some ''y'') [(''/lib/manga/vol1'', OtherException ''corrupt page''), (''/lib/manga/vol10'', SystemExit 1)]) (example_args [''manga/vol1''] (Some ''manga'')) 0))))
   \<and> attempted (fst (snd (run (example_env_raising (Some ''y'') [(''/lib/manga/vol1'', OtherException ''corrupt page''), (''/lib/manga/vol10'', SystemExit 1)]) (example_args [''manga/vol1''] (Some ''manga'')) 0))) ! Suc 0 = natsorted [''/lib/manga/vol1'', ''/lib/manga/vol10'', ''/lib/manga/vol2''] ! Suc 0"
proof -
  have h1: "resolve (example_env_raising (Some ''y'') [(''/lib/manga/vol1'', OtherException ''corrupt page''), (''/lib/manga/vol10'', SystemExit 1)]) (example_args [''manga/vol1''] (Some ''manga'')) = Inr [''/lib/manga/vol1'', ''/lib/manga/vol10'', ''/lib/manga/vol2'']"
    by code_simp
  have h2: "[''/lib/manga/vol1'', ''/lib/manga/vol10'', ''/lib/manga/vol2''] \<noteq> []"
    by simp
  have h3: "fst (confirm (example_env_raising (Some ''y'') [(''/lib/manga/vol1'', OtherException ''corrupt page''), (''/lib/manga/vol10'', SystemExit 1)]) (example_args [''manga/vol1''] (Some ''manga''))) = Returned True"
    by code_simp
  have h4: "run (example_env_raising (Some ''y'') [(''/lib/manga/vol1'', OtherException ''corrupt page''), (''/lib/manga/vol10'', SystemExit 1)]) (example_args [''manga/vol1''] (Some ''manga'')) 0 = (fst (run (example_env_raising (Some ''y'') [(''/lib/manga/vol1'', OtherException ''corrupt page''), (''/lib/manga/vol10'', SystemExit 1)]) (example_args [''manga/vol1''] (Some ''manga'')) 0), fst (snd (run (example_env_raising (Some ''y'') [(''/lib/manga/vol1'', OtherException ''corrupt page''), (''/lib/manga/vol10'', SystemExit 1)]) (example_args [''manga/vol1''] (Some ''manga'')) 0)), snd (snd (run (example_env_raising (Some ''y'') [(''/lib/manga/vol1'', OtherException ''corrupt page''), (''/lib/manga/vol10'', SystemExit 1)]) (example_args [''manga/vol1''] (Some ''manga'')) 0)))"
    by simp
  have o: "outcomes (fst (snd (run (example_env_raising (Some ''y'') [(''/lib/manga/vol1'', OtherException ''corrupt page''), (''/lib/manga/vol10'', SystemExit 1)]) (example_args [''manga/vol1''] (Some ''manga'')) 0)))
       = [(''/lib/manga/vol1'', Raised (OtherException ''corrupt page'')), (''/lib/manga/vol2'', Returned ()),
          (''/lib/manga/vol10'', Raised (SystemExit 1))]"
    by code_simp
  have f: "failures (fst (snd (run (example_env_raising (Some ''y'') [(''/lib/manga/vol1'', OtherException ''corrupt page''), (''/lib/manga/vol10'', SystemExit 1)]) (example_args [''manga/vol1''] (Some ''manga'')) 0)))
       = [(''/lib/manga/vol1'', OtherException ''corrupt page''), (''/lib/manga/vol10'', SystemExit 1)]"
    by code_simp
  note t = ordinary_failure_isolated [OF h1 h2 h3 h4]
  from t have t1: "failures_handled (fst (snd (run (example_env_raising (Some ''y'') [(''/lib/manga/vol1'', OtherException ''corrupt page''), (''/lib/manga/vol10'', SystemExit 1)]) (example_args [''manga/vol1''] (Some ''manga'')) 0)))"
    by blast
  from t have "logged_errors (fst (snd (run (example_env_raising (Some ''y'') [(''/lib/manga/vol1'', OtherException ''corrupt page''), (''/lib/manga/vol10'', SystemExit 1)]) (example_args [''manga/vol1''] (Some ''manga'')) 0)))
      = filter (\<lambda>f. isinstance_Exception (snd f)) (failures (fst (snd (run (example_env_raising (Some ''y'') [(''/lib/manga/vol1'', OtherException ''corrupt page''), (''/lib/manga/vol10'', SystemExit 1)]) (example_args [''manga/vol1''] (Some ''manga'')) 0))))"
    by blast
  then have t2: "logged_errors (fst (snd (run (example_env_raising (Some ''y'') [(''/lib/manga/vol1'', OtherException ''corrupt page''), (''/lib/manga/vol10'', SystemExit 1)]) (example_args [''manga/vol1''] (Some ''manga'')) 0))) = [(''/lib/manga/vol1'', OtherException ''corrupt page'')]"
    by (simp add: f)
  from t have "0 < length (outcomes (fst (snd (run (example_env_raising (Some ''y'') [(''/lib/manga/vol1'', OtherException ''corrupt page''), (''/lib/manga/vol10'', SystemExit 1)]) (example_args [''manga/vol1''] (Some ''manga'')) 0))))
        \<and> snd (outcomes (fst (snd (run (example_env_raising (Some ''y'') [(''/lib/manga/vol1'', OtherException ''corrupt page''), (''/lib/manga/vol10'', SystemExit 1)]) (example_args [''manga/vol1''] (Some ''manga'')) 0))) ! 0) = Raised (OtherException ''corrupt page'')
        \<and> isinstance_Exception (OtherException ''corrupt page'')
        \<and> Suc 0 < length [''/lib/manga/vol1'', ''/lib/manga/vol10'', ''/lib/manga/vol2'']
      \<longrightarrow> Suc 0 < length (attempted (fst (snd (run (example_env_raising (Some ''y'') [(''/lib/manga/vol1'', OtherException ''corrupt page''), (''/lib/manga/vol10'', SystemExit 1)]) (example_args [''manga/vol1''] (Some ''manga'')) 0))))
          \<and> attempted (fst (snd (run (example_env_raising (Some ''y'') [(''/lib/manga/vol1'', OtherException ''corrupt page''), (''/lib/manga/vol10'', SystemExit 1)]) (example_args [''manga/vol1''] (Some ''manga'')) 0))) ! Suc 0 = natsorted [''/lib/manga/vol1'', ''/lib/manga/vol10'', ''/lib/manga/vol2''] ! Suc 0"
    by blast
  then have t4: "Suc 0 < length (attempted (fst (snd (run (example_env_raising (Some ''y'') [(''/lib/manga/vol1'', OtherException ''corrupt page''), (''/lib/manga/vol10'', SystemExit 1)]) (example_args [''manga/vol1''] (Some ''manga'')) 0))))
          \<and> attempted (fst (snd (run (example_env_raising (Some ''y'') [(''/lib/manga/vol1'', OtherException ''corrupt page''), (''/lib/manga/vol10'', SystemExit 1)]) (example_args [''manga/vol1''] (Some ''manga'')) 0))) ! Suc 0 = natsorted [''/lib/manga/vol1'', ''/lib/manga/vol10'', ''/lib/manga/vol2''] ! Suc 0"
    by (simp add: o)
  from h1 h3 o t1 t2 t4 show ?thesis
    by blast
qed

text \<open>
  \<^bold>\<open>C1\<close> as stated fails: when processing \<open>vol2\<close> raises \<open>SystemExit\<close>, the exception is not
  logged, it leaves \<open>run\<close>, and \<open>vol10\<close>, the third volume of the working set, is never
  attempted.
\<close>

theorem system_exit_aborts_batch:
  "resolve (example_env (Some ''y'') (SystemExit 1)) (example_args [''manga/vol1''] (Some ''manga'')) = Inr [''/lib/manga/vol1'', ''/lib/manga/vol10'', ''/lib/manga/vol2'']
   \<and> natsorted [''/lib/manga/vol1'', ''/lib/manga/vol10'', ''/lib/manga/vol2''] = [''/lib/manga/vol1'', ''/lib/manga/vol2'', ''/lib/manga/vol10'']
   \<and> fst (run (example_env (Some ''y'') (SystemExit 1)) (example_args [''manga/vol1''] (Some ''manga'')) 0) = Raised (SystemExit 1)
   \<and> attempted (fst (snd (run (example_env (Some ''y'') (SystemExit 1)) (example_args [''manga/vol1''] (Some ''manga'')) 0))) = [''/lib/manga/vol1'', ''/lib/manga/vol2'']
   \<and> failures (fst (snd (run (example_env (Some ''y'') (SystemExit 1)) (example_args [''manga/vol1''] (Some ''manga'')) 0))) = [(''/lib/manga/vol2'', SystemExit 1)]
   \<and> logged_errors (fst (snd (run (example_env (Some ''y'') (SystemExit 1)) (example_args [''manga/vol1''] (Some ''manga'')) 0))) = []
   \<and> summaries (fst (snd (run (example_env (Some ''y'') (SystemExit 1)) (example_args [''manga/vol1''] (Some ''manga'')) 0))) = []"
  by code_simp

text \<open>
  \<^bold>\<open>C2\<close>, as amended. In every run that reaches the batch with a working set of \<open>N\<close>
  volumes, the volumes attempted are an initial part of the sorted working set, each
  entry at most once and in order, and the progress messages count them \<open>1/N\<close>, \<open>2/N\<close>, ...
  When the \<open>k\<close> failing calls of \<open>process_dir\<close> all raise exceptions of the class
  \<open>Exception\<close>, every volume is attempted, each entry once and in order, \<open>k \<le> N\<close>, and the one
  summary reports \<open>N - k\<close> successful out of \<open>N\<close>. When some call raises outside that class,
  the run raises and no summary is written.
\<close>

theorem batch_accounting:
  assumes "resolve env a = Inr ws" and "ws \<noteq> []" and "fst (confirm env a) = Returned True"
    and "run env a w = (r, evs, w')"
  shows "attempted evs = take (length (attempted evs)) (natsorted ws)
     \<and> length (attempted evs) \<le> length ws
     \<and> progress evs = map (\<lambda>(j, p). (j + 1, length ws, p)) (enumerate 0 (attempted evs))
     \<and> length (failures evs) \<le> length (attempted evs)
     \<and> (ordinary (failures evs) \<longrightarrow>
          r = Returned () \<and> attempted evs = natsorted ws
          \<and> progress evs = map (\<lambda>(j, p). (j + 1, length ws, p)) (enumerate 0 (natsorted ws))
          \<and> length (failures evs) \<le> length ws
          \<and> summaries evs = [(length ws - length (failures evs), length ws)])
     \<and> (\<not> ordinary (failures evs) \<longrightarrow>
          r = Raised (snd (last (failures evs))) \<and> summaries evs = [])"
proof -
  obtain rb bevs wb where
    b: "batch env (OverlayGenerator a) (as_one_file a) (length ws) 0 (natsorted ws) 0 w
          = (rb, bevs, wb)"
    by (cases "batch env (OverlayGenerator a) (as_one_file a) (length ws) 0 (natsorted ws) 0 w")
  from run_proceeds [OF assms(1-3) b] obtain pre where
    pre: "attempted pre = []" "failures pre = []" "progress pre = []" "summaries pre = []"
    and run: "run env a w =
      (case rb of
         Returned k \<Rightarrow> (Returned (), pre @ bevs @ [Log INFO (Summary k (length ws)) None], wb)
       | Raised e \<Rightarrow> (Raised e, pre @ bevs, wb))"
    by blast
  define rest where
    "rest = (case rb of Returned k \<Rightarrow> [Log INFO (Summary k (length ws)) None] | Raised e \<Rightarrow> [])"
  have evs: "evs = pre @ bevs @ rest"
    and r: "r = (case rb of Returned k \<Rightarrow> Returned () | Raised e \<Rightarrow> Raised e)"
    using run assms(4) by (cases rb; simp add: rest_def)+
  have rest: "failures rest = []" "attempted rest = []" "progress rest = []"
    by (cases rb; simp add: rest_def)+
  have f: "failures evs = failures bevs" and at: "attempted evs = attempted bevs"
    and p: "progress evs = progress bevs"
    using pre rest
    by (simp_all add: evs failures_append attempted_append progress_append)
  have prefix: "attempted bevs = take (length (attempted bevs)) (natsorted ws)"
    using batch_ok [OF b] batch_fatal [OF b] by (cases "ordinary (failures bevs)") simp_all
  have c1: "attempted evs = take (length (attempted evs)) (natsorted ws)"
    using prefix by (simp add: at)
  have "length (attempted bevs) \<le> length (natsorted ws)"
    by (subst prefix) simp
  then have c2: "length (attempted evs) \<le> length ws"
    by (simp add: at length_natsorted)
  have c3: "progress evs
      = map (\<lambda>(j, p). (j + 1, length ws, p)) (enumerate 0 (attempted evs))"
    using batch_progress [OF b] by (simp add: p at)
  have c4: "length (failures evs) \<le> length (attempted evs)"
    by (rule length_failures_le)
  have c5: "ordinary (failures evs) \<longrightarrow>
          r = Returned () \<and> attempted evs = natsorted ws
          \<and> progress evs = map (\<lambda>(j, p). (j + 1, length ws, p)) (enumerate 0 (natsorted ws))
          \<and> length (failures evs) \<le> length ws
          \<and> summaries evs = [(length ws - length (failures evs), length ws)]"
  proof
    assume "ordinary (failures evs)"
    then have o: "ordinary (failures bevs)" by (simp add: f)
    from batch_ok [OF b o]
    have ok: "rb = Returned (length ws - length (failures bevs))"
      "length (failures bevs) \<le> length ws" "attempted bevs = natsorted ws"
      "summaries bevs = []"
      by (simp_all add: length_natsorted)
    from ok(1) have "evs = pre @ bevs
        @ [Log INFO (Summary (length ws - length (failures bevs)) (length ws)) None]"
      by (simp add: evs rest_def)
    then have "summaries evs = [(length ws - length (failures bevs), length ws)]"
      using pre ok by (simp add: summaries_append)
    then have "summaries evs = [(length ws - length (failures evs), length ws)]"
      by (simp only: f)
    with ok r f at c3 show "r = Returned () \<and> attempted evs = natsorted ws
          \<and> progress evs = map (\<lambda>(j, p). (j + 1, length ws, p)) (enumerate 0 (natsorted ws))
          \<and> length (failures evs) \<le> length ws
          \<and> summaries evs = [(length ws - length (failures evs), length ws)]"
      by simp
  qed
  have c6: "\<not> ordinary (failures evs) \<longrightarrow>
          r = Raised (snd (last (failures evs))) \<and> summaries evs = []"
  proof
    assume "\<not> ordinary (failures evs)"
    then have o: "\<not> ordinary (failures bevs)" by (simp add: f)
    from batch_fatal [OF b o]
    have fa: "rb = Raised (snd (last (failures bevs)))" "summaries bevs = []"
      by simp_all
    from fa(1) have "evs = pre @ bevs" by (simp add: evs rest_def)
    with fa r f pre show "r = Raised (snd (last (failures evs))) \<and> summaries evs = []"
      by (simp add: summaries_append)
  qed
  from c1 c2 c3 c4 c5 c6 show ?thesis by blast
qed

theorem batch_accounting_witness:
  "resolve (example_env (Some ''y'') (OSError ''unreadable'')) (example_args [] (Some ''manga'')) = Inr [''/lib/manga/vol10'', ''/lib/manga/vol2'', ''/lib/manga/vol1'']
   \<and> fst (confirm (example_env (Some ''y'') (OSError ''unreadable'')) (example_args [] (Some ''manga''))) = Returned True
   \<and> failures (fst (snd (run (example_env (Some ''y'') (OSError ''unreadable'')) (example_args [] (Some ''manga'')) 0))) = [(''/lib/manga/vol2'', OSError ''unreadable'')]
   \<and> fst (run (example_env (Some ''y'') (OSError ''unreadable'')) (example_args [] (Some ''manga'')) 0) = Returned ()
   \<and> attempted (fst (snd (run (example_env (Some ''y'') (OSError ''unreadable'')) (example_args [] (Some ''manga'')) 0))) = [''/lib/manga/vol1'', ''/lib/manga/vol2'', ''/lib/manga/vol10'']
   \<and> progress (fst (snd (run (example_env (Some ''y'') (OSError ''unreadable'')) (example_args [] (Some ''manga'')) 0))) = [(1, 3, ''/lib/manga/vol1''), (2, 3, ''/lib/manga/vol2''), (3, 3, ''/lib/manga/vol10'')]
   \<and> summaries (fst (snd (run (example_env (Some ''y'') (OSError ''unreadable'')) (example_args [] (Some ''manga'')) 0))) = [(2, 3)]"
proof -
  have h1: "resolve (example_env (Some ''y'') (OSError ''unreadable'')) (example_args [] (Some ''manga'')) = Inr [''/lib/manga/vol10'', ''/lib/manga/vol2'', ''/lib/manga/vol1'']"
    by code_simp
  have h2: "[''/lib/manga/vol10'', ''/lib/manga/vol2'', ''/lib/manga/vol1''] \<noteq> []"
    by simp
  have h3: "fst (confirm (example_env (Some ''y'') (OSError ''unreadable'')) (example_args [] (Some ''manga''))) = Returned True"
    by code_simp
  have h4: "run (example_env (Some ''y'') (OSError ''unreadable'')) (example_args [] (Some ''manga'')) 0 = (fst (run (example_env (Some ''y'') (OSError ''unreadable'')) (example_args [] (Some ''manga'')) 0), fst (snd (run (example_env (Some ''y'') (OSError ''unreadable'')) (example_args [] (Some ''manga'')) 0)), snd (snd (run (example_env (Some ''y'') (OSError ''unreadable'')) (example_args [] (Some ''manga'')) 0)))"
    by simp
  have f: "failures (fst (snd (run (example_env (Some ''y'') (OSError ''unreadable'')) (example_args [] (Some ''manga'')) 0))) = [(''/lib/manga/vol2'', OSError ''unreadable'')]"
    by code_simp
  have h5: "ordinary (failures (fst (snd (run (example_env (Some ''y'') (OSError ''unreadable'')) (example_args [] (Some ''manga'')) 0))))"
    by (simp add: f ordinary_def)
  have s: "natsorted [''/lib/manga/vol10'', ''/lib/manga/vol2'', ''/lib/manga/vol1''] = [''/lib/manga/vol1'', ''/lib/manga/vol2'', ''/lib/manga/vol10'']"
    by code_simp
  from batch_accounting [OF h1 h2 h3 h4] h5
  have "fst (run (example_env (Some ''y'') (OSError ''unreadable'')) (example_args [] (Some ''manga'')) 0) = Returned ()
     \<and> attempted (fst (snd (run (example_env (Some ''y'') (OSError ''unreadable'')) (example_args [] (Some ''manga'')) 0))) = natsorted [''/lib/manga/vol10'', ''/lib/manga/vol2'', ''/lib/manga/vol1'']
     \<and> progress (fst (snd (run (example_env (Some ''y'') (OSError ''unreadable'')) (example_args [] (Some ''manga'')) 0)))
         = map (\<lambda>(j, p). (j + 1, length [''/lib/manga/vol10'', ''/lib/manga/vol2'', ''/lib/manga/vol1''], p))
             (enumerate 0 (natsorted [''/lib/manga/vol10'', ''/lib/manga/vol2'', ''/lib/manga/vol1'']))
     \<and> summaries (fst (snd (run (example_env (Some ''y'') (OSError ''unreadable'')) (example_args [] (Some ''manga'')) 0)))
         = [(length [''/lib/manga/vol10'', ''/lib/manga/vol2'', ''/lib/manga/vol1''] - length (failures (fst (snd (run (example_env (Some ''y'') (OSError ''unreadable'')) (example_args [] (Some ''manga'')) 0)))),
             length [''/lib/manga/vol10'', ''/lib/manga/vol2'', ''/lib/manga/vol1''])]"
    by blast
  with h1 h3 f show ?thesis
    by (simp add: s enumerate_simps)
qed

text \<open>
  \<^bold>\<open>C2\<close> as stated fails: of the three volumes of the working set one call fails, that
  of \<open>vol2\<close>, with \<open>SystemExit\<close>; \<open>vol10\<close> is never attempted and no count is reported,
  where the claim has three attempts and two of three reported.
\<close>

theorem system_exit_breaks_accounting:
  "resolve (example_env (Some ''y'') (SystemExit 2)) (example_args [] (Some ''manga'')) = Inr [''/lib/manga/vol10'', ''/lib/manga/vol2'', ''/lib/manga/vol1'']
   \<and> natsorted [''/lib/manga/vol10'', ''/lib/manga/vol2'', ''/lib/manga/vol1''] = [''/lib/manga/vol1'', ''/lib/manga/vol2'', ''/lib/manga/vol10'']
   \<and> fst (confirm (example_env (Some ''y'') (SystemExit 2)) (example_args [] (Some ''manga''))) = Returned True
   \<and> outcomes (fst (snd (run (example_env (Some ''y'') (SystemExit 2)) (example_args [] (Some ''manga'')) 0))) = [(''/lib/manga/vol1'', Returned ()), (''/lib/manga/vol2'', Raised (SystemExit 2))]
   \<and> attempted (fst (snd (run (example_env (Some ''y'') (SystemExit 2)) (example_args [] (Some ''manga'')) 0))) = [''/lib/manga/vol1'', ''/lib/manga/vol2'']
   \<and> summaries (fst (snd (run (example_env (Some ''y'') (SystemExit 2)) (example_args [] (Some ''manga'')) 0))) = []
   \<and> fst (run (example_env (Some ''y'') (SystemExit 2)) (example_args [] (Some ''manga'')) 0) = Raised (SystemExit 2)"
  by code_simp

text \<open>
  \<^bold>\<open>C3\<close>, as amended. When the confirmation is not disabled and a line is read, a volume is
  attempted if and only if the line, lowered in case and \<^emph>\<open>not\<close> trimmed, is \<open>y\<close> or \<open>yes\<close>,
  and then the first volume of the sorted working set is attempted first; after any other
  line the run returns without raising, with no volume attempted, no error-level
  diagnostic and the world unchanged. The prompt is shown once.
\<close>

theorem confirmation_gate:
  assumes "resolve env a = Inr ws" and "ws \<noteq> []" and "\<not> disable_confirmation a"
    and "input_line env = Some inp" and "run env a w = (r, evs, w')"
  shows "(attempted evs \<noteq> [] \<longleftrightarrow> lower inp \<in> set [''y'', ''yes''])
           \<and> (lower inp \<in> set [''y'', ''yes''] \<longrightarrow> hd (attempted evs) = hd (natsorted ws))
           \<and> (lower inp \<notin> set [''y'', ''yes''] \<longrightarrow>
                r = Returned () \<and> error_diagnostics evs = [] \<and> w' = w)
           \<and> prompts evs = [confirm_prompt]"
proof (cases "lower inp \<in> set [''y'', ''yes'']")
  case True
  with assms(3,4) have c: "fst (confirm env a) = Returned True"
    by (simp add: confirm_def)
  obtain rb bevs wb where
    b: "batch env (OverlayGenerator a) (as_one_file a) (length ws) 0 (natsorted ws) 0 w
          = (rb, bevs, wb)"
    by (cases "batch env (OverlayGenerator a) (as_one_file a) (length ws) 0 (natsorted ws) 0 w")
  from run_proceeds [OF assms(1,2) c b] assms(3) obtain pre where
    pre: "attempted pre = []" "prompts pre = [confirm_prompt]"
    and run: "run env a w =
      (case rb of
         Returned k \<Rightarrow> (Returned (), pre @ bevs @ [Log INFO (Summary k (length ws)) None], wb)
       | Raised e \<Rightarrow> (Raised e, pre @ bevs, wb))"
    by auto
  from assms(2) have "natsorted ws \<noteq> []" by (simp add: natsorted_Nil_iff)
  from batch_attempted_hd [OF b this]
  have hd: "attempted bevs \<noteq> []" "hd (attempted bevs) = hd (natsorted ws)"
    by simp_all
  have pb: "prompts bevs = []"
    using batch_ok [OF b] batch_fatal [OF b] by blast
  from run assms(5) have "attempted evs = attempted bevs \<and> prompts evs = [confirm_prompt]"
    using pre pb by (cases rb) (auto simp: attempted_append prompts_append)
  with hd True show ?thesis by simp
next
  case False
  with assms(3,4) have c: "fst (confirm env a) = Returned False"
    by (simp add: confirm_def)
  from run_rejected [OF assms(1,2) c] assms(5)
  have "r = Returned ()" "w' = w"
    "evs = (if disable_ocr a then [Log INFO OcrDisabled None] else [])
        @ Print paths_header # map Print (natsorted ws) @ snd (confirm env a)"
    by simp_all
  with False assms(3) show ?thesis
    by (simp add: confirm_events attempted_append error_diagnostics_append prompts_append
        observe_prints)
qed

theorem confirmation_gate_witness:
  "resolve (example_env (Some ''YES'') GeneratorExit) (example_args [''manga/vol1''] (Some ''manga'')) = Inr [''/lib/manga/vol1'', ''/lib/manga/vol10'', ''/lib/manga/vol2'']
   \<and> \<not> disable_confirmation (example_args [''manga/vol1''] (Some ''manga''))
   \<and> lower ''YES'' \<in> set [''y'', ''yes'']
   \<and> attempted (fst (snd (run (example_env (Some ''YES'') GeneratorExit) (example_args [''manga/vol1''] (Some ''manga'')) 0))) \<noteq> []
   \<and> hd (attempted (fst (snd (run (example_env (Some ''YES'') GeneratorExit) (example_args [''manga/vol1''] (Some ''manga'')) 0)))) = hd (natsorted [''/lib/manga/vol1'', ''/lib/manga/vol10'', ''/lib/manga/vol2''])
   \<and> lower ''no'' \<notin> set [''y'', ''yes'']
   \<and> fst (run (example_env (Some ''no'') GeneratorExit) (example_args [''manga/vol1''] (Some ''manga'')) 0) = Returned ()
   \<and> attempted (fst (snd (run (example_env (Some ''no'') GeneratorExit) (example_args [''manga/vol1''] (Some ''manga'')) 0))) = []
   \<and> error_diagnostics (fst (snd (run (example_env (Some ''no'') GeneratorExit) (example_args [''manga/vol1''] (Some ''manga'')) 0))) = []
   \<and> prompts (fst (snd (run (example_env (Some ''no'') GeneratorExit) (example_args [''manga/vol1''] (Some ''manga'')) 0))) = [confirm_prompt]"
proof -
  have y1: "resolve (example_env (Some ''YES'') GeneratorExit) (example_args [''manga/vol1''] (Some ''manga'')) = Inr [''/lib/manga/vol1'', ''/lib/manga/vol10'', ''/lib/manga/vol2'']"
    by code_simp
  have n1: "resolve (example_env (Some ''no'') GeneratorExit) (example_args [''manga/vol1''] (Some ''manga'')) = Inr [''/lib/manga/vol1'', ''/lib/manga/vol10'', ''/lib/manga/vol2'']"
    by code_simp
  have h2: "[''/lib/manga/vol1'', ''/lib/manga/vol10'', ''/lib/manga/vol2''] \<noteq> []"
    by simp
  have h3: "\<not> disable_confirmation (example_args [''manga/vol1''] (Some ''manga''))"
    by (simp add: example_args_def)
  have y4: "input_line (example_env (Some ''YES'') GeneratorExit) = Some ''YES''"
    by (simp add: example_env_def)
  have n4: "input_line (example_env (Some ''no'') GeneratorExit) = Some ''no''"
    by (simp add: example_env_def)
  have y5: "run (example_env (Some ''YES'') GeneratorExit) (example_args [''manga/vol1''] (Some ''manga'')) 0 = (fst (run (example_env (Some ''YES'') GeneratorExit) (example_args [''manga/vol1''] (Some ''manga'')) 0), fst (snd (run (example_env (Some ''YES'') GeneratorExit) (example_args [''manga/vol1''] (Some ''manga'')) 0)), snd (snd (run (example_env (Some ''YES'') GeneratorExit) (example_args [''manga/vol1''] (Some ''manga'')) 0)))"
    by simp
  have n5: "run (example_env (Some ''no'') GeneratorExit) (example_args [''manga/vol1''] (Some ''manga'')) 0 = (fst (run (example_env (Some ''no'') GeneratorExit) (example_args [''manga/vol1''] (Some ''manga'')) 0), fst (snd (run (example_env (Some ''no'') GeneratorExit) (example_args [''manga/vol1''] (Some ''manga'')) 0)), snd (snd (run (example_env (Some ''no'') GeneratorExit) (example_args [''manga/vol1''] (Some ''manga'')) 0)))"
    by simp
  have ly: "lower ''YES'' = ''yes''"
    by code_simp
  have ln: "lower ''no'' = ''no''"
    by code_simp
  from confirmation_gate [OF y1 h2 h3 y4 y5] confirmation_gate [OF n1 h2 h3 n4 n5]
    y1 h3
  show ?thesis
    by (simp add: ly ln)
qed

text \<open>
  \<^bold>\<open>C3\<close> as stated fails: the line \<open>" yes"\<close>, once trimmed and lowered, is \<open>yes\<close>, but the
  source does not trim it, and the run returns with no volume attempted.
\<close>

theorem confirmation_not_trimmed:
  "spec_affirmative '' yes''
   \<and> resolve (example_env (Some '' yes'') GeneratorExit) (example_args [''manga/vol1''] (Some ''manga'')) = Inr [''/lib/manga/vol1'', ''/lib/manga/vol10'', ''/lib/manga/vol2'']
   \<and> \<not> disable_confirmation (example_args [''manga/vol1''] (Some ''manga''))
   \<and> fst (run (example_env (Some '' yes'') GeneratorExit) (example_args [''manga/vol1''] (Some ''manga'')) 0) = Returned ()
   \<and> attempted (fst (snd (run (example_env (Some '' yes'') GeneratorExit) (example_args [''manga/vol1''] (Some ''manga'')) 0))) = []"
  by code_simp

text \<open>
  \<^bold>\<open>C4\<close>, as amended. The sorted working set has no duplicates exactly when the explicit
  paths, once normalised, are pairwise distinct: the scan of the parent directory never
  adds a path that is already in the list, and the explicit paths are kept as given.
\<close>

theorem working_set_distinct:
  assumes "resolve env a = Inr ws"
  shows "distinct (natsorted ws) \<longleftrightarrow> distinct (map (absolute env) (paths a))"
proof -
  from resolve_append [OF assms] obtain added where
    "ws = map (absolute env) (paths a) @ added" "distinct added"
    "set added \<inter> set (map (absolute env) (paths a)) = {}"
    by blast
  then have "distinct ws \<longleftrightarrow> distinct (map (absolute env) (paths a))"
    by auto
  then show ?thesis by (simp add: distinct_natsorted)
qed

theorem working_set_distinct_witness:
  "resolve (example_env None GeneratorExit) (example_args [''manga/vol1''] (Some ''manga'')) = Inr [''/lib/manga/vol1'', ''/lib/manga/vol10'', ''/lib/manga/vol2'']
   \<and> distinct (map (absolute (example_env None GeneratorExit)) (paths (example_args [''manga/vol1''] (Some ''manga''))))
   \<and> distinct (natsorted [''/lib/manga/vol1'', ''/lib/manga/vol10'', ''/lib/manga/vol2''])"
proof -
  have h1: "resolve (example_env None GeneratorExit) (example_args [''manga/vol1''] (Some ''manga'')) = Inr [''/lib/manga/vol1'', ''/lib/manga/vol10'', ''/lib/manga/vol2'']"
    by code_simp
  have d: "distinct (map (absolute (example_env None GeneratorExit)) (paths (example_args [''manga/vol1''] (Some ''manga''))))"
    by code_simp
  from working_set_distinct [OF h1] h1 d show ?thesis
    by simp
qed

text \<open>
  \<^bold>\<open>C4\<close> as stated fails: the same explicit path given twice stays twice in the working
  set, and the volume is processed twice.
\<close>

theorem explicit_duplicates_kept:
  "resolve (example_env (Some ''y'') GeneratorExit) (example_args [''manga/vol1'', ''manga/vol1''] None) = Inr [''/lib/manga/vol1'', ''/lib/manga/vol1'']
   \<and> \<not> distinct (natsorted [''/lib/manga/vol1'', ''/lib/manga/vol1''])
   \<and> attempted (fst (snd (run (example_env (Some ''y'') GeneratorExit) (example_args [''manga/vol1'', ''manga/vol1''] None) 0))) = [''/lib/manga/vol1'', ''/lib/manga/vol1'']"
  by code_simp

text \<open>
  \<^bold>\<open>C5\<close>. When resolution leaves an empty list of paths, the run returns without raising,
  logs exactly one error-level diagnostic (that no paths were found), attempts no volume,
  shows no prompt and leaves the world unchanged.
\<close>

theorem empty_working_set:
  assumes "resolve env a = Inr []" and "run env a w = (r, evs, w')"
  shows "r = Returned () \<and> error_diagnostics evs = [NoPaths] \<and> attempted evs = []
           \<and> prompts evs = [] \<and> w' = w"
  using assms by (auto simp: run_def)

theorem empty_working_set_witness:
  "resolve (example_env None GeneratorExit) (example_args [] None) = Inr []
   \<and> fst (run (example_env None GeneratorExit) (example_args [] None) 0) = Returned ()
   \<and> error_diagnostics (fst (snd (run (example_env None GeneratorExit) (example_args [] None) 0))) = [NoPaths]
   \<and> attempted (fst (snd (run (example_env None GeneratorExit) (example_args [] None) 0))) = []
   \<and> prompts (fst (snd (run (example_env None GeneratorExit) (example_args [] None) 0))) = []"
proof -
  have h1: "resolve (example_env None GeneratorExit) (example_args [] None) = Inr []"
    by code_simp
  have h2: "run (example_env None GeneratorExit) (example_args [] None) 0 = (fst (run (example_env None GeneratorExit) (example_args [] None) 0), fst (snd (run (example_env None GeneratorExit) (example_args [] None) 0)), snd (snd (run (example_env None GeneratorExit) (example_args [] None) 0)))"
    by simp
  from empty_working_set [OF h1 h2] h1 show ?thesis
    by simp
qed

text \<open>
  \<^bold>\<open>C6\<close>. \<open>natsorted\<close> puts any list of paths in the natural order of their string forms:
  the result is sorted by \<open>natural_le\<close>, it holds the same paths as often as the input, and
  paths with equal keys keep their order. Numeric runs are compared by value: for two
  paths that agree up to a numeric run (after a text \<open>s\<close> that does not end in a digit, the
  digits \<open>ds\<close> and \<open>es\<close>, then anything that does not start with a digit), the one with the
  smaller number has the smaller key, whatever the lengths of the runs and whatever
  follows, and it stands first in the result. So \<open>vol1\<close>, \<open>vol2\<close> and \<open>vol10\<close> of any
  directory \<open>d\<close>, given in any of their six orders, come out as \<open>vol1\<close>, \<open>vol2\<close>, \<open>vol10\<close>,
  although as plain strings \<open>vol10\<close> is below \<open>vol2\<close>.
\<close>

theorem natsorted_natural_order:
  "sorted_wrt natural_le (natsorted ps)
     \<and> count_list (natsorted ps) p = count_list ps p
     \<and> filter (\<lambda>x. natsort_key x = c) (natsorted ps) = filter (\<lambda>x. natsort_key x = c) ps
     \<and> (s \<noteq> [] \<and> \<not> is_digit (last s) \<and> ds \<noteq> [] \<and> list_all is_digit ds
          \<and> es \<noteq> [] \<and> list_all is_digit es
          \<and> (t = [] \<or> \<not> is_digit (hd t)) \<and> (u = [] \<or> \<not> is_digit (hd u))
        \<longrightarrow> (key_less (natsort_key (s @ ds @ t)) (natsort_key (s @ es @ u))
               \<longleftrightarrow> decimal ds < decimal es
                    \<or> (decimal ds = decimal es
                         \<and> key_less (map chunk_of (runs t)) (map chunk_of (runs u))))
            \<and> (decimal ds < decimal es \<and> i < length ps \<and> j < length ps
                 \<and> natsorted ps ! i = s @ ds @ t \<and> natsorted ps ! j = s @ es @ u
               \<longrightarrow> i < j))
     \<and> natsorted [d @ ''/vol1'', d @ ''/vol2'', d @ ''/vol10'']
         = [d @ ''/vol1'', d @ ''/vol2'', d @ ''/vol10'']
     \<and> natsorted [d @ ''/vol1'', d @ ''/vol10'', d @ ''/vol2'']
         = [d @ ''/vol1'', d @ ''/vol2'', d @ ''/vol10'']
     \<and> natsorted [d @ ''/vol2'', d @ ''/vol1'', d @ ''/vol10'']
         = [d @ ''/vol1'', d @ ''/vol2'', d @ ''/vol10'']
     \<and> natsorted [d @ ''/vol2'', d @ ''/vol10'', d @ ''/vol1'']
         = [d @ ''/vol1'', d @ ''/vol2'', d @ ''/vol10'']
     \<and> natsorted [d @ ''/vol10'', d @ ''/vol1'', d @ ''/vol2'']
         = [d @ ''/vol1'', d @ ''/vol2'', d @ ''/vol10'']
     \<and> natsorted [d @ ''/vol10'', d @ ''/vol2'', d @ ''/vol1'']
         = [d @ ''/vol1'', d @ ''/vol2'', d @ ''/vol10'']
     \<and> str_less (d @ ''/vol10'') (d @ ''/vol2'')"
proof -
  have num: "(key_less (natsort_key (s @ ds @ t)) (natsort_key (s @ es @ u))
               \<longleftrightarrow> decimal ds < decimal es
                    \<or> (decimal ds = decimal es
                         \<and> key_less (map chunk_of (runs t)) (map chunk_of (runs u))))
            \<and> (decimal ds < decimal es \<and> i < length ps \<and> j < length ps
                 \<and> natsorted ps ! i = s @ ds @ t \<and> natsorted ps ! j = s @ es @ u
               \<longrightarrow> i < j)"
    if h: "s \<noteq> [] \<and> \<not> is_digit (last s) \<and> ds \<noteq> [] \<and> list_all is_digit ds
          \<and> es \<noteq> [] \<and> list_all is_digit es
          \<and> (t = [] \<or> \<not> is_digit (hd t)) \<and> (u = [] \<or> \<not> is_digit (hd u))"
  proof -
    from h have k: "key_less (natsort_key (s @ ds @ t)) (natsort_key (s @ es @ u))
               \<longleftrightarrow> decimal ds < decimal es
                    \<or> (decimal ds = decimal es
                         \<and> key_less (map chunk_of (runs t)) (map chunk_of (runs u)))"
      by (intro key_less_numeric_runs) simp_all
    have "i < j"
      if g: "decimal ds < decimal es \<and> i < length ps \<and> j < length ps
                 \<and> natsorted ps ! i = s @ ds @ t \<and> natsorted ps ! j = s @ es @ u"
    proof (rule sorted_position [OF sorted_natsorted [of ps]])
      show "i < length (natsorted ps)" "j < length (natsorted ps)"
        using g by (simp_all add: length_natsorted)
      show "key_less (natsort_key (natsorted ps ! i)) (natsort_key (natsorted ps ! j))"
        using g k by simp
    qed
    with k show ?thesis by blast
  qed
  define K where "K = natsort_key (d @ ''/vol'')"
  have d1: "is_digit CHR ''1''" and d2: "is_digit CHR ''2''" and d0: "is_digit CHR ''0''"
    and l: "\<not> is_digit CHR ''l''"
    by (simp_all add: is_digit_def)
  have "natsort_key ((d @ ''/vol'') @ ''1'') = K @ [Num (decimal ''1'')]"
    unfolding K_def by (rule natsort_key_numeric_suffix) (simp_all add: d1 l)
  then have k1: "natsort_key (d @ ''/vol1'') = K @ [Num 1]"
    by (simp add: decimal_def)
  have "natsort_key ((d @ ''/vol'') @ ''2'') = K @ [Num (decimal ''2'')]"
    unfolding K_def by (rule natsort_key_numeric_suffix) (simp_all add: d2 l)
  then have k2: "natsort_key (d @ ''/vol2'') = K @ [Num 2]"
    by (simp add: decimal_def)
  have "natsort_key ((d @ ''/vol'') @ ''10'') = K @ [Num (decimal ''10'')]"
    unfolding K_def by (rule natsort_key_numeric_suffix) (simp_all add: d1 d0 l)
  then have k10: "natsort_key (d @ ''/vol10'') = K @ [Num 10]"
    by (simp add: decimal_def)
  have lex: "str_less (d @ ''/vol10'') (d @ ''/vol2'')"
    by (simp add: str_less_common_prefix)
  have vols: "natsorted [d @ ''/vol1'', d @ ''/vol2'', d @ ''/vol10'']
         = [d @ ''/vol1'', d @ ''/vol2'', d @ ''/vol10'']
     \<and> natsorted [d @ ''/vol1'', d @ ''/vol10'', d @ ''/vol2'']
         = [d @ ''/vol1'', d @ ''/vol2'', d @ ''/vol10'']
     \<and> natsorted [d @ ''/vol2'', d @ ''/vol1'', d @ ''/vol10'']
         = [d @ ''/vol1'', d @ ''/vol2'', d @ ''/vol10'']
     \<and> natsorted [d @ ''/vol2'', d @ ''/vol10'', d @ ''/vol1'']
         = [d @ ''/vol1'', d @ ''/vol2'', d @ ''/vol10'']
     \<and> natsorted [d @ ''/vol10'', d @ ''/vol1'', d @ ''/vol2'']
         = [d @ ''/vol1'', d @ ''/vol2'', d @ ''/vol10'']
     \<and> natsorted [d @ ''/vol10'', d @ ''/vol2'', d @ ''/vol1'']
         = [d @ ''/vol1'', d @ ''/vol2'', d @ ''/vol10'']
     \<and> str_less (d @ ''/vol10'') (d @ ''/vol2'')"
    by (simp add: natsorted_def k1 k2 k10 key_less_common_prefix lex)
  from sorted_natsorted [of ps] count_natsorted [of ps p] stable_natsorted [of c ps] num vols
  show ?thesis by blast
qed

theorem natsorted_natural_order_witness:
  "''/lib/manga/vol'' \<noteq> [] \<and> \<not> is_digit (last ''/lib/manga/vol'')
   \<and> list_all is_digit ''9'' \<and> list_all is_digit ''10''
   \<and> \<not> is_digit (hd ''a'')
   \<and> decimal ''9'' < decimal ''10''
   \<and> key_less (natsort_key ''/lib/manga/vol9a'') (natsort_key ''/lib/manga/vol10'')
   \<and> natsorted [''/lib/manga/vol10'', ''/lib/manga/vol9a'']
       = [''/lib/manga/vol9a'', ''/lib/manga/vol10'']
   \<and> sorted_wrt natural_le (natsorted [''/lib/manga/vol10'', ''/lib/manga/vol9a''])"
proof -
  have h: "''/lib/manga/vol'' \<noteq> [] \<and> \<not> is_digit (last ''/lib/manga/vol'')
      \<and> ''9'' \<noteq> [] \<and> list_all is_digit ''9'' \<and> ''10'' \<noteq> [] \<and> list_all is_digit ''10''
      \<and> (''a'' = [] \<or> \<not> is_digit (hd ''a'')) \<and> ('''' = [] \<or> \<not> is_digit (hd ''''))"
    by (simp add: is_digit_def)
  have n: "decimal ''9'' < decimal ''10''"
    by (simp add: decimal_def)
  have s: "natsorted [''/lib/manga/vol10'', ''/lib/manga/vol9a'']
       = [''/lib/manga/vol9a'', ''/lib/manga/vol10'']"
    by code_simp
  note t = natsorted_natural_order [of "[''/lib/manga/vol10'', ''/lib/manga/vol9a'']"
      "''/lib/manga/vol10''" "natsort_key ''/lib/manga/vol10''" "''/lib/manga/vol''"
      "''9''" "''10''" "''a''" "''''" 0 1 "''/lib/manga''"]
  from t have t1: "sorted_wrt natural_le (natsorted [''/lib/manga/vol10'', ''/lib/manga/vol9a''])"
    by blast
  from t h have t2: "key_less (natsort_key (''/lib/manga/vol'' @ ''9'' @ ''a''))
        (natsort_key (''/lib/manga/vol'' @ ''10'' @ ''''))
      \<longleftrightarrow> decimal ''9'' < decimal ''10''
          \<or> (decimal ''9'' = decimal ''10''
              \<and> key_less (map chunk_of (runs ''a'')) (map chunk_of (runs '''')))"
    by blast
  from t2 n have k: "key_less (natsort_key ''/lib/manga/vol9a'') (natsort_key ''/lib/manga/vol10'')"
    by simp
  from h n k s t1 show ?thesis
    by simp
qed

text \<open>
  \<^bold>\<open>C7\<close>. When a parent directory is given and listing it raises \<open>OSError\<close>, the run
  raises that error to its caller; no prompt has been shown, no volume attempted, no
  error-level diagnostic logged, and the world is unchanged.
\<close>

theorem missing_parent_propagates:
  assumes "parent_dir a = Some d" and "iterdir env (absolute env d) = Inl msg"
    and "run env a w = (r, evs, w')"
  shows "r = Raised (OSError msg) \<and> prompts evs = [] \<and> attempted evs = []
           \<and> error_diagnostics evs = [] \<and> w' = w"
  using assms by (auto simp: run_def resolve_def)

theorem missing_parent_propagates_witness:
  "parent_dir (example_args [''manga/vol1''] (Some ''missing'')) = Some ''missing''
   \<and> iterdir (example_env (Some ''y'') GeneratorExit) (absolute (example_env (Some ''y'') GeneratorExit) ''missing'') = Inl ''No such file or directory''
   \<and> fst (run (example_env (Some ''y'') GeneratorExit) (example_args [''manga/vol1''] (Some ''missing'')) 0) = Raised (OSError ''No such file or directory'')
   \<and> prompts (fst (snd (run (example_env (Some ''y'') GeneratorExit) (example_args [''manga/vol1''] (Some ''missing'')) 0))) = []
   \<and> attempted (fst (snd (run (example_env (Some ''y'') GeneratorExit) (example_args [''manga/vol1''] (Some ''missing'')) 0))) = []"
proof -
  have h1: "parent_dir (example_args [''manga/vol1''] (Some ''missing'')) = Some ''missing''"
    by (simp add: example_args_def)
  have h2: "iterdir (example_env (Some ''y'') GeneratorExit) (absolute (example_env (Some ''y'') GeneratorExit) ''missing'') = Inl ''No such file or directory''"
    by (simp add: example_env_def)
  have h3: "run (example_env (Some ''y'') GeneratorExit) (example_args [''manga/vol1''] (Some ''missing'')) 0 = (fst (run (example_env (Some ''y'') GeneratorExit) (example_args [''manga/vol1''] (Some ''missing'')) 0), fst (snd (run (example_env (Some ''y'') GeneratorExit) (example_args [''manga/vol1''] (Some ''missing'')) 0)), snd (snd (run (example_env (Some ''y'') GeneratorExit) (example_args [''manga/vol1''] (Some ''missing'')) 0)))"
    by simp
  from missing_parent_propagates [OF h1 h2 h3] h1 h2 show ?thesis
    by simp
qed

text \<open>
  \<^bold>\<open>C8\<close>. The scan of the parent directory never adds a path whose base name is \<open>_ocr\<close>:
  the list of paths starts with the explicit paths, and no path named \<open>_ocr\<close> is among the
  entries the scan appended after them, whatever else the directory holds; unless it was
  given explicitly, such a path is not in the sorted working set.
\<close>

theorem sentinel_never_added:
  assumes "resolve env a = Inr ws" and "name c = ''_ocr''"
  shows "take (length (paths a)) ws = map (absolute env) (paths a)
           \<and> c \<notin> set (drop (length (paths a)) ws)
           \<and> (c \<notin> set (map (absolute env) (paths a)) \<longrightarrow> c \<notin> set (natsorted ws))"
proof -
  from resolve_append [OF assms(1)] obtain added where
    a: "ws = map (absolute env) (paths a) @ added"
       "\<forall>c\<in>set added. is_dir env c \<and> stem c \<noteq> ''_ocr''"
    by blast
  from a(2) stem_of_sentinel [OF assms(2)] have "c \<notin> set added" by blast
  with a(1) show ?thesis by (simp add: set_natsorted)
qed

theorem sentinel_never_added_witness:
  "resolve (example_env None GeneratorExit) (example_args [''manga/vol1''] (Some ''manga'')) = Inr [''/lib/manga/vol1'', ''/lib/manga/vol10'', ''/lib/manga/vol2'']
   \<and> name ''/lib/manga/_ocr'' = ''_ocr''
   \<and> is_dir (example_env None GeneratorExit) ''/lib/manga/_ocr''
   \<and> ''/lib/manga/_ocr'' \<notin> set (drop (length (paths (example_args [''manga/vol1''] (Some ''manga'')))) [''/lib/manga/vol1'', ''/lib/manga/vol10'', ''/lib/manga/vol2''])
   \<and> ''/lib/manga/_ocr'' \<notin> set (natsorted [''/lib/manga/vol1'', ''/lib/manga/vol10'', ''/lib/manga/vol2''])"
proof -
  have h1: "resolve (example_env None GeneratorExit) (example_args [''manga/vol1''] (Some ''manga'')) = Inr [''/lib/manga/vol1'', ''/lib/manga/vol10'', ''/lib/manga/vol2'']"
    by code_simp
  have h2: "name ''/lib/manga/_ocr'' = ''_ocr''"
    by code_simp
  have d: "is_dir (example_env None GeneratorExit) ''/lib/manga/_ocr''"
    by (simp add: example_env_def)
  have x: "''/lib/manga/_ocr'' \<notin> set (map (absolute (example_env None GeneratorExit)) (paths (example_args [''manga/vol1''] (Some ''manga''))))"
    by code_simp
  from sentinel_never_added [OF h1 h2] h1 h2 d x show ?thesis
    by simp
qed

text \<open>
  \<^bold>\<open>C9\<close>. The scan tests the stem of the child, not its base name: no path whose stem is
  \<open>_ocr\<close> is among the entries the scan appended, and a child named \<open>_ocr.bak\<close> has the stem
  \<open>_ocr\<close>, so that it is left out as well.
\<close>

theorem stem_decides_exclusion:
  assumes "resolve env a = Inr ws"
  shows "(stem c = ''_ocr'' \<longrightarrow> c \<notin> set (drop (length (paths a)) ws))
           \<and> (name c = ''_ocr.bak'' \<longrightarrow> stem c = ''_ocr'' \<and> c \<notin> set (drop (length (paths a)) ws))"
proof -
  from resolve_append [OF assms(1)] obtain added where
    a: "ws = map (absolute env) (paths a) @ added"
       "\<forall>c\<in>set added. is_dir env c \<and> stem c \<noteq> ''_ocr''"
    by blast
  have "stem c = ''_ocr'' \<Longrightarrow> c \<notin> set added" using a(2) by blast
  with a(1) stem_of_backup [of c] show ?thesis by auto
qed

theorem stem_decides_exclusion_witness:
  "resolve (example_env (Some ''n'') GeneratorExit) (example_args [''manga/vol1''] (Some ''manga'')) = Inr [''/lib/manga/vol1'', ''/lib/manga/vol10'', ''/lib/manga/vol2'']
   \<and> name ''/lib/manga/_ocr.bak'' = ''_ocr.bak''
   \<and> is_dir (example_env (Some ''n'') GeneratorExit) ''/lib/manga/_ocr.bak''
   \<and> stem ''/lib/manga/_ocr.bak'' = ''_ocr''
   \<and> ''/lib/manga/_ocr.bak'' \<notin> set (drop (length (paths (example_args [''manga/vol1''] (Some ''manga'')))) [''/lib/manga/vol1'', ''/lib/manga/vol10'', ''/lib/manga/vol2''])"
proof -
  have h1: "resolve (example_env (Some ''n'') GeneratorExit) (example_args [''manga/vol1''] (Some ''manga'')) = Inr [''/lib/manga/vol1'', ''/lib/manga/vol10'', ''/lib/manga/vol2'']"
    by code_simp
  have h2: "name ''/lib/manga/_ocr.bak'' = ''_ocr.bak''"
    by code_simp
  have d: "is_dir (example_env (Some ''n'') GeneratorExit) ''/lib/manga/_ocr.bak''"
    by (simp add: example_env_def)
  from stem_decides_exclusion [OF h1, of "''/lib/manga/_ocr.bak''"] h1 h2 d show ?thesis
    by simp
qed

text \<open>
  \<^bold>\<open>C10\<close>. In a run that reaches the batch, when some call of \<open>process_dir\<close> raises an
  exception outside the class \<open>Exception\<close>: the run raises that exception, the failing call
  is the last event of the run and the last volume attempted, the volumes attempted are an
  initial part of the sorted working set, the exception is not logged (the log holds the
  earlier failures only), and no summary is written.
\<close>

theorem base_exception_escapes:
  assumes "resolve env a = Inr ws" and "ws \<noteq> []" and "fst (confirm env a) = Returned True"
    and "run env a w = (r, evs, w')" and "\<not> ordinary (failures evs)"
  shows "r = Raised (snd (last (failures evs)))
           \<and> \<not> isinstance_Exception (snd (last (failures evs)))
           \<and> last evs = ProcessDir (last (attempted evs)) (as_one_file a) (Raised (snd (last (failures evs))))
           \<and> fst (last (failures evs)) = last (attempted evs)
           \<and> attempted evs = take (length (attempted evs)) (natsorted ws)
           \<and> logged_errors evs = butlast (failures evs)
           \<and> summaries evs = []"
proof -
  obtain rb bevs wb where
    b: "batch env (OverlayGenerator a) (as_one_file a) (length ws) 0 (natsorted ws) 0 w
          = (rb, bevs, wb)"
    by (cases "batch env (OverlayGenerator a) (as_one_file a) (length ws) 0 (natsorted ws) 0 w")
  from run_proceeds [OF assms(1-3) b] obtain pre where
    pre: "attempted pre = []" "failures pre = []" "logged_errors pre = []" "summaries pre = []"
    and run: "run env a w =
      (case rb of
         Returned k \<Rightarrow> (Returned (), pre @ bevs @ [Log INFO (Summary k (length ws)) None], wb)
       | Raised e \<Rightarrow> (Raised e, pre @ bevs, wb))"
    by blast
  have "failures evs = failures bevs"
    using run assms(4) pre(2) by (cases rb) (auto simp: failures_append)
  with assms(5) have "\<not> ordinary (failures bevs)" by simp
  from batch_fatal [OF b this]
  have f: "rb = Raised (snd (last (failures bevs)))"
     "\<not> isinstance_Exception (snd (last (failures bevs)))"
     "last bevs = ProcessDir (fst (last (failures bevs))) (as_one_file a)
                    (Raised (snd (last (failures bevs))))"
     "fst (last (failures bevs)) = last (attempted bevs)"
     "attempted bevs = take (length (attempted bevs)) (natsorted ws)"
     "attempted bevs \<noteq> []"
     "logged_errors bevs = butlast (failures bevs)"
     "summaries bevs = []"
    by simp_all
  from f(6) have ne: "bevs \<noteq> []" by auto
  from run assms(4) f(1)
  have "r = Raised (snd (last (failures bevs)))" "evs = pre @ bevs"
    by simp_all
  then show ?thesis
    using pre f ne by (simp add: attempted_append failures_append logged_errors_append
        summaries_append)
qed

theorem base_exception_escapes_witness:
  "resolve (example_env (Some ''yes'') KeyboardInterrupt) (example_args [''manga/vol1''] (Some ''manga'')) = Inr [''/lib/manga/vol1'', ''/lib/manga/vol10'', ''/lib/manga/vol2'']
   \<and> fst (confirm (example_env (Some ''yes'') KeyboardInterrupt) (example_args [''manga/vol1''] (Some ''manga''))) = Returned True
   \<and> failures (fst (snd (run (example_env (Some ''yes'') KeyboardInterrupt) (example_args [''manga/vol1''] (Some ''manga'')) 0))) = [(''/lib/manga/vol2'', KeyboardInterrupt)]
   \<and> fst (run (example_env (Some ''yes'') KeyboardInterrupt) (example_args [''manga/vol1''] (Some ''manga'')) 0) = Raised KeyboardInterrupt
   \<and> last (fst (snd (run (example_env (Some ''yes'') KeyboardInterrupt) (example_args [''manga/vol1''] (Some ''manga'')) 0))) = ProcessDir ''/lib/manga/vol2'' True (Raised KeyboardInterrupt)
   \<and> attempted (fst (snd (run (example_env (Some ''yes'') KeyboardInterrupt) (example_args [''manga/vol1''] (Some ''manga'')) 0))) = take 2 (natsorted [''/lib/manga/vol1'', ''/lib/manga/vol10'', ''/lib/manga/vol2''])
   \<and> logged_errors (fst (snd (run (example_env (Some ''yes'') KeyboardInterrupt) (example_args [''manga/vol1''] (Some ''manga'')) 0))) = []
   \<and> summaries (fst (snd (run (example_env (Some ''yes'') KeyboardInterrupt) (example_args [''manga/vol1''] (Some ''manga'')) 0))) = []"
proof -
  have h1: "resolve (example_env (Some ''yes'') KeyboardInterrupt) (example_args [''manga/vol1''] (Some ''manga'')) = Inr [''/lib/manga/vol1'', ''/lib/manga/vol10'', ''/lib/manga/vol2'']"
    by code_simp
  have h2: "[''/lib/manga/vol1'', ''/lib/manga/vol10'', ''/lib/manga/vol2''] \<noteq> []"
    by simp
  have h3: "fst (confirm (example_env (Some ''yes'') KeyboardInterrupt) (example_args [''manga/vol1''] (Some ''manga''))) = Returned True"
    by code_simp
  have h4: "run (example_env (Some ''yes'') KeyboardInterrupt) (example_args [''manga/vol1''] (Some ''manga'')) 0 = (fst (run (example_env (Some ''yes'') KeyboardInterrupt) (example_args [''manga/vol1''] (Some ''manga'')) 0), fst (snd (run (example_env (Some ''yes'') KeyboardInterrupt) (example_args [''manga/vol1''] (Some ''manga'')) 0)), snd (snd (run (example_env (Some ''yes'') KeyboardInterrupt) (example_args [''manga/vol1''] (Some ''manga'')) 0)))"
    by simp
  have f: "failures (fst (snd (run (example_env (Some ''yes'') KeyboardInterrupt) (example_args [''manga/vol1''] (Some ''manga'')) 0))) = [(''/lib/manga/vol2'', KeyboardInterrupt)]"
    by code_simp
  have h5: "\<not> ordinary (failures (fst (snd (run (example_env (Some ''yes'') KeyboardInterrupt) (example_args [''manga/vol1''] (Some ''manga'')) 0))))"
    by (simp add: f ordinary_def)
  have a: "attempted (fst (snd (run (example_env (Some ''yes'') KeyboardInterrupt) (example_args [''manga/vol1''] (Some ''manga'')) 0))) = [''/lib/manga/vol1'', ''/lib/manga/vol2'']"
    by code_simp
  have o: "as_one_file (example_args [''manga/vol1''] (Some ''manga'')) = True"
    by (simp add: example_args_def)
  from base_exception_escapes [OF h1 h2 h3 h4 h5] h1 h3 f show ?thesis
    by (simp add: a o numeral_2_eq_2)
qed

end
